theory Spec2Isabelle
  imports Complex_Main
begin

section \<open>Numbers\<close>

text \<open>
  The component \<open>RubiksCube3D\<close> computes with JavaScript numbers. They are modelled as
  exact reals: rounding error, signed zeros, infinities and overflow are not represented.
  The one division of the source whose divisor a caller can make zero (the animation
  progress) gets its own result type below, so that \<open>NaN\<close> and \<open>-Infinity\<close> are values
  of the model there. \<open>Math.PI\<close> is \<open>pi\<close>.
\<close>

type_synonym vec3 = "real \<times> real \<times> real"

type_synonym mat3 = "vec3 \<times> vec3 \<times> vec3"

definition Math_round :: "real \<Rightarrow> real" where
  \<comment> \<open>\<open>Math.round\<close>: the nearest integer, a tie going up.\<close>
  "Math_round x = of_int \<lfloor>x + 1 / 2\<rfloor>"

definition Math_atan2 :: "real \<Rightarrow> real \<Rightarrow> real" where
  \<comment> \<open>\<open>Math.atan2(y, x)\<close>, the angle of the point \<open>(x, y)\<close> in \<open>(-pi, pi]\<close>.\<close>
  "Math_atan2 y x =
     (if 0 < x then arctan (y / x)
      else if x < 0 then (if 0 \<le> y then arctan (y / x) + pi else arctan (y / x) - pi)
      else if 0 < y then pi / 2
      else if y < 0 then - (pi / 2)
      else 0)"

definition clamp :: "real \<Rightarrow> real \<Rightarrow> real \<Rightarrow> real" where
  "clamp v lo hi = max lo (min hi v)"

section \<open>The scene graph\<close>

text \<open>
  The cubies and the pivot are objects of the scene-graph library (three.js), which is
  not part of the repository. What \<open>rotateLayer\<close> uses of it is modelled here from the
  library's own definitions, in exact arithmetic: an object has a position, a rotation
  held as Euler angles of order XYZ, and a parent. The quaternion that the library keeps
  in step with the Euler angles stands for the same rotation and is not modelled apart;
  the scale of every object is one. The scene itself is never moved, so the world
  transform of a child of the scene is its local transform.
\<close>

datatype node = Scene | Pivot

record object3d =
  position :: vec3
  rotation :: vec3
  parent :: node

fun applyMatrix :: "mat3 \<Rightarrow> vec3 \<Rightarrow> vec3" where
  "applyMatrix ((a11, a12, a13), (a21, a22, a23), (a31, a32, a33)) (x, y, z) =
     (a11 * x + a12 * y + a13 * z,
      a21 * x + a22 * y + a23 * z,
      a31 * x + a32 * y + a33 * z)"

fun transpose3 :: "mat3 \<Rightarrow> mat3" where
  "transpose3 ((a11, a12, a13), (a21, a22, a23), (a31, a32, a33)) =
     ((a11, a21, a31), (a12, a22, a32), (a13, a23, a33))"

fun multiply :: "mat3 \<Rightarrow> mat3 \<Rightarrow> mat3" where
  "multiply ((a11, a12, a13), (a21, a22, a23), (a31, a32, a33))
            ((b11, b12, b13), (b21, b22, b23), (b31, b32, b33)) =
     ((a11 * b11 + a12 * b21 + a13 * b31,
       a11 * b12 + a12 * b22 + a13 * b32,
       a11 * b13 + a12 * b23 + a13 * b33),
      (a21 * b11 + a22 * b21 + a23 * b31,
       a21 * b12 + a22 * b22 + a23 * b32,
       a21 * b13 + a22 * b23 + a23 * b33),
      (a31 * b11 + a32 * b21 + a33 * b31,
       a31 * b12 + a32 * b22 + a33 * b32,
       a31 * b13 + a32 * b23 + a33 * b33))"

fun addVectors :: "vec3 \<Rightarrow> vec3 \<Rightarrow> vec3" where
  "addVectors (x, y, z) (u, v, w) = (x + u, y + v, z + w)"

fun negate :: "vec3 \<Rightarrow> vec3" where
  "negate (x, y, z) = (- x, - y, - z)"

fun makeRotationFromEuler :: "vec3 \<Rightarrow> mat3" where
  \<comment> \<open>\<open>Matrix4.makeRotationFromEuler\<close>, order XYZ: the rotation part, by rows.\<close>
  "makeRotationFromEuler (x, y, z) =
     (let a = cos x; b = sin x; c = cos y; d = sin y; e = cos z; f = sin z;
          ae = a * e; af = a * f; be = b * e; bf = b * f
      in ((c * e, - c * f, d),
          (af + be * d, ae - bf * d, - b * c),
          (bf - ae * d, be + af * d, a * c)))"

fun setFromRotationMatrix :: "mat3 \<Rightarrow> vec3" where
  \<comment> \<open>\<open>Euler.setFromRotationMatrix\<close>, order XYZ.\<close>
  "setFromRotationMatrix ((m11, m12, m13), (m21, m22, m23), (m31, m32, m33)) =
     (let y = arcsin (clamp m13 (- 1) 1)
      in if \<bar>m13\<bar> < 0.9999999
         then (Math_atan2 (- m23) m33, y, Math_atan2 (- m12) m11)
         else (Math_atan2 m32 m22, y, 0))"

text \<open>
  A world transform is a rotation matrix with a translation. The inverse taken by
  \<open>attach\<close> is that of a rigid motion: the transposed rotation, and the translation
  carried back.
\<close>

type_synonym transform = "mat3 \<times> vec3"

definition matrix :: "object3d \<Rightarrow> transform" where
  \<comment> \<open>\<open>updateMatrix\<close>: the local transform composed from position and rotation.\<close>
  "matrix obj = (makeRotationFromEuler (rotation obj), position obj)"

fun compose :: "transform \<Rightarrow> transform \<Rightarrow> transform" where
  "compose (ra, ta) (rb, tb) = (multiply ra rb, addVectors (applyMatrix ra tb) ta)"

fun invert :: "transform \<Rightarrow> transform" where
  "invert (r, t) = (transpose3 r, negate (applyMatrix (transpose3 r) t))"

definition matrixWorld :: "object3d \<Rightarrow> object3d \<Rightarrow> transform" where
  \<comment> \<open>The world transform of \<open>obj\<close>; \<open>pv\<close> is the pivot, itself a child of the scene.\<close>
  "matrixWorld pv obj =
     (case parent obj of Scene \<Rightarrow> matrix obj | Pivot \<Rightarrow> compose (matrix pv) (matrix obj))"

definition getWorldPosition :: "object3d \<Rightarrow> object3d \<Rightarrow> vec3" where
  "getWorldPosition pv obj = snd (matrixWorld pv obj)"

definition decompose :: "transform \<Rightarrow> node \<Rightarrow> object3d" where
  \<comment> \<open>\<open>Matrix4.decompose\<close> into the position and the Euler angles of a child of \<open>p\<close>.\<close>
  "decompose m p = \<lparr>position = snd m, rotation = setFromRotationMatrix (fst m), parent = p\<rparr>"

definition attach :: "node \<Rightarrow> object3d \<Rightarrow> object3d \<Rightarrow> object3d" where
  \<comment> \<open>\<open>p.attach(obj)\<close>: \<open>obj\<close> becomes a child of \<open>p\<close> and keeps its world transform.\<close>
  "attach p pv obj =
     (case p of
        Scene \<Rightarrow> decompose (matrixWorld pv obj) Scene
      | Pivot \<Rightarrow> decompose (compose (invert (matrix pv)) (matrixWorld pv obj)) Pivot)"

section \<open>The component's state\<close>

text \<open>
  \<open>cubiesRef\<close>, \<open>pivotRef\<close> and \<open>isAnimatingRef\<close> are the fields \<open>cubies\<close>, \<open>pivot\<close>
  and \<open>isAnimating\<close>. A move in flight is the closure \<open>animateRotation\<close> waiting for
  the next animation frame; its captured variables are the record \<open>animation\<close>, and
  \<open>activeCubies\<close> holds the selected meshes as indices into \<open>cubies\<close>. The prop
  \<open>onMoveComplete\<close> is an observer that may be absent; its calls are counted. The
  field \<open>pivotNonFinite\<close> is explained with \<open>rotateLayer\<close> below.
\<close>

record animation =
  axis :: string
  targetRotation :: real
  duration :: real
  activeCubies :: "nat list"

record cube =
  cubies :: "object3d list"
  pivot :: object3d
  isAnimating :: bool
  scheduled :: "animation option"
  onMoveComplete :: bool
  moveCompleteCalls :: nat
  pivotNonFinite :: bool

definition CUBE_SIZE :: real where
  "CUBE_SIZE = 1"

definition SPACING :: real where
  "SPACING = 0.02"

definition TOTAL_SIZE :: real where
  "TOTAL_SIZE = CUBE_SIZE + SPACING"

definition mesh :: "int \<Rightarrow> int \<Rightarrow> int \<Rightarrow> object3d" where
  "mesh x y z =
     \<lparr>position = (of_int x * TOTAL_SIZE, of_int y * TOTAL_SIZE, of_int z * TOTAL_SIZE),
      rotation = (0, 0, 0), parent = Scene\<rparr>"

definition buildCube :: "object3d list" where
  \<comment> \<open>The three nested loops of the mount effect, \<open>x\<close> outermost.\<close>
  "buildCube = concat (map (\<lambda>x. concat (map (\<lambda>y. map (\<lambda>z. mesh x y z) [- 1, 0, 1])
                                              [- 1, 0, 1])) [- 1, 0, 1])"

definition mounted :: "bool \<Rightarrow> cube" where
  \<comment> \<open>The state after the mount effect; \<open>obs\<close> tells whether \<open>onMoveComplete\<close> was passed.\<close>
  "mounted obs =
     \<lparr>cubies = buildCube,
      pivot = \<lparr>position = (0, 0, 0), rotation = (0, 0, 0), parent = Scene\<rparr>,
      isAnimating = False, scheduled = None, onMoveComplete = obs, moveCompleteCalls = 0,
      pivotNonFinite = False\<rparr>"

section \<open>rotateLayer\<close>

text \<open>
  \<open>Date.now()\<close> enters as the difference \<open>now - startTime\<close> of two readings of the
  clock, a whole number of milliseconds. The source puts no bound on it from below: it
  is negative when the clock has been set back since \<open>startTime\<close> was read. The frame
  callback is a function of that difference and the state; the browser decides when it
  runs.

  With a duration of zero and a negative difference the progress is \<open>-Infinity\<close>, and
  the angle that the frame writes to the pivot is an infinity, or \<open>NaN\<close> when the
  direction is zero. The reals have no such value: the field \<open>pivotNonFinite\<close> of the
  state records that the pivot's rotation holds one, on the axis of the move in flight.
  The next frame and the cleanup assign that component again before the pivot's
  matrix is read, and \<open>pivot.rotation.set(0, 0, 0)\<close> clears it.
\<close>

definition epsilon :: real where
  \<comment> \<open>Declared in \<open>rotateLayer\<close>; no expression of the source reads it.\<close>
  "epsilon = 0.1"

fun inLayer :: "string \<Rightarrow> int \<Rightarrow> vec3 \<Rightarrow> bool" where
  \<comment> \<open>The callback of \<open>cubies.filter\<close>, applied to the world position of a mesh.\<close>
  "inLayer ax idx (wx, wy, wz) =
     (let targetPos = of_int idx * (1 + 0.02)
      in if ax = ''x'' then \<bar>wx - targetPos\<bar> < 0.5
         else if ax = ''y'' then \<bar>wy - targetPos\<bar> < 0.5
         else if ax = ''z'' then \<bar>wz - targetPos\<bar> < 0.5
         else False)"

definition selectLayer :: "string \<Rightarrow> int \<Rightarrow> cube \<Rightarrow> nat list" where
  "selectLayer ax idx s =
     filter (\<lambda>i. inLayer ax idx (getWorldPosition (pivot s) (cubies s ! i)))
            [0 ..< length (cubies s)]"

fun setAxis :: "string \<Rightarrow> real \<Rightarrow> vec3 \<Rightarrow> vec3" where
  \<comment> \<open>The three guarded assignments to \<open>pivot.rotation.x\<close>, \<open>.y\<close> and \<open>.z\<close>.\<close>
  "setAxis ax angle (x, y, z) =
     (if ax = ''x'' then angle else x,
      if ax = ''y'' then angle else y,
      if ax = ''z'' then angle else z)"

definition snapTo :: "real \<Rightarrow> real \<Rightarrow> real" where
  \<comment> \<open>\<open>Math.round(v / unit) * unit\<close>, written six times in the source.\<close>
  "snapTo unit v = Math_round (v / unit) * unit"

fun snapPosition :: "vec3 \<Rightarrow> vec3" where
  "snapPosition (x, y, z) = (snapTo 1.02 x, snapTo 1.02 y, snapTo 1.02 z)"

fun snapRotation :: "vec3 \<Rightarrow> vec3" where
  "snapRotation (x, y, z) = (snapTo (pi / 2) x, snapTo (pi / 2) y, snapTo (pi / 2) z)"

definition detach :: "object3d \<Rightarrow> object3d \<Rightarrow> object3d" where
  \<comment> \<open>The body of the second \<open>forEach\<close>: back to the scene, then both snaps.\<close>
  "detach pv obj =
     (let obj1 = attach Scene pv obj
      in obj1\<lparr>position := snapPosition (position obj1),
              rotation := snapRotation (rotation obj1)\<rparr>)"

definition forEach :: "nat list \<Rightarrow> (object3d \<Rightarrow> object3d) \<Rightarrow> object3d list \<Rightarrow> object3d list" where
  \<comment> \<open>\<open>activeCubies.forEach\<close>: the meshes are updated in place, one after the other.\<close>
  "forEach act f cs = fold (\<lambda>i acc. acc[i := f (acc ! i)]) act cs"

definition cleanup :: "animation \<Rightarrow> cube \<Rightarrow> cube" where
  \<comment> \<open>The \<open>else\<close> branch of \<open>animateRotation\<close>, up to the call of \<open>resolve(true)\<close>.\<close>
  "cleanup a s =
     (let pv = (pivot s)\<lparr>rotation := setAxis (axis a) (targetRotation a) (rotation (pivot s))\<rparr>
      in s\<lparr>cubies := forEach (activeCubies a) (detach pv) (cubies s),
           pivot := pv\<lparr>rotation := (0, 0, 0)\<rparr>,
           isAnimating := False,
           scheduled := None,
           moveCompleteCalls := (if onMoveComplete s then moveCompleteCalls s + 1
                                 else moveCompleteCalls s),
           pivotNonFinite := False\<rparr>)"

datatype progress = Progress real | NaN | MinusInfinity

definition progressAt :: "int \<Rightarrow> real \<Rightarrow> progress" where
  \<comment> \<open>\<open>Math.min((now - startTime) / duration, 1)\<close> with \<open>elapsed = now - startTime\<close>:
      \<open>0 / 0\<close> is \<open>NaN\<close>; a positive time over zero is \<open>Infinity\<close>, so the minimum is 1;
      a negative time over zero is \<open>-Infinity\<close>, and so is the minimum.\<close>
  "progressAt elapsed dur =
     (if dur = 0
      then (if elapsed = 0 then NaN else if 0 < elapsed then Progress 1 else MinusInfinity)
      else Progress (min (of_int elapsed / dur) 1))"

definition named :: "string \<Rightarrow> bool" where
  \<comment> \<open>The axes for which one of the three guarded assignments runs.\<close>
  "named ax = (ax = ''x'' \<or> ax = ''y'' \<or> ax = ''z'')"

definition easeOut :: "real \<Rightarrow> real" where
  "easeOut p = 1 - (1 - p) ^ 3"

definition drive :: "animation \<Rightarrow> real \<Rightarrow> cube \<Rightarrow> cube" where
  \<comment> \<open>The assignment of \<open>currentAngle\<close> to the pivot at a frame with progress \<open>p\<close>.\<close>
  "drive a p s =
     (let eased = easeOut p;
          currentAngle = targetRotation a * eased
      in s\<lparr>pivot := (pivot s)\<lparr>rotation := setAxis (axis a) currentAngle (rotation (pivot s))\<rparr>,
           pivotNonFinite := (pivotNonFinite s \<and> \<not> named (axis a))\<rparr>)"

definition diverge :: "animation \<Rightarrow> cube \<Rightarrow> cube" where
  \<comment> \<open>The same assignment at a frame with progress \<open>-Infinity\<close>: the eased value is
      \<open>-Infinity\<close> and \<open>currentAngle\<close> is not finite.\<close>
  "diverge a s = s\<lparr>pivotNonFinite := (pivotNonFinite s \<or> named (axis a))\<rparr>"

definition animateRotation :: "int \<Rightarrow> cube \<Rightarrow> bool \<times> cube" where
  \<comment> \<open>One run of the frame callback, with \<open>elapsed = now - startTime\<close>. The result
      tells whether \<open>resolve(true)\<close> was called. With no move in flight no callback is
      registered. A \<open>NaN\<close> progress is not below 1, and the angle it writes is
      overwritten by the target before anything reads it. \<open>-Infinity\<close> is below 1.\<close>
  "animateRotation elapsed s =
     (case scheduled s of
        None \<Rightarrow> (False, s)
      | Some a \<Rightarrow>
          (case progressAt elapsed (duration a) of
             NaN \<Rightarrow> (True, cleanup a s)
           | MinusInfinity \<Rightarrow> (False, diverge a s)
           | Progress p \<Rightarrow>
               if p < 1 then (False, drive a p s) else (True, cleanup a (drive a p s))))"

datatype jsval = JSBool bool | JSUndefined

datatype promise = Fulfilled jsval | Pending

definition beginRotation :: "string \<Rightarrow> int \<Rightarrow> int \<Rightarrow> real \<Rightarrow> cube \<Rightarrow> cube" where
  \<comment> \<open>\<open>rotateLayer\<close> from the setting of the busy flag to the reading of \<open>startTime\<close>:
      the layer is selected, the pivot reset, the layer attached to it, and the closure
      \<open>animateRotation\<close> formed.\<close>
  "beginRotation ax idx direction dur s =
     (let act = selectLayer ax idx s;
          pv = (pivot s)\<lparr>rotation := (0, 0, 0), position := (0, 0, 0)\<rparr>
      in s\<lparr>isAnimating := True,
           pivot := pv,
           pivotNonFinite := False,
           cubies := forEach act (attach Pivot pv) (cubies s),
           scheduled := Some \<lparr>axis = ax, targetRotation = (pi / 2) * of_int direction,
                              duration = dur, activeCubies = act\<rparr>\<rparr>)"

definition rotateLayer :: "string \<Rightarrow> int \<Rightarrow> int \<Rightarrow> real \<Rightarrow> int \<Rightarrow> cube \<Rightarrow> promise \<times> cube" where
  \<comment> \<open>\<open>elapsed\<close> is the clock's advance from the reading of \<open>startTime\<close> to the first run of
      \<open>animateRotation\<close>, which the promise executor makes before \<open>rotateLayer\<close> returns.
      The index and the direction are whole numbers: the one caller passes 1 and -1.\<close>
  "rotateLayer ax idx direction dur elapsed s =
     (if isAnimating s then (Fulfilled (JSBool False), s)
      else case animateRotation elapsed (beginRotation ax idx direction dur s) of
             (True, s') \<Rightarrow> (Fulfilled (JSBool True), s')
           | (False, s') \<Rightarrow> (Pending, s'))"

section \<open>rotateFace\<close>

definition faceMove :: "string \<Rightarrow> (string \<times> int \<times> int) option" where
  \<comment> \<open>The \<open>switch\<close>: axis, index and direction of a face, \<open>None\<close> for the default case.\<close>
  "faceMove face =
     (if face = ''R'' then Some (''x'', 1, - 1)
      else if face = ''L'' then Some (''x'', - 1, 1)
      else if face = ''U'' then Some (''y'', 1, - 1)
      else if face = ''D'' then Some (''y'', - 1, 1)
      else if face = ''F'' then Some (''z'', 1, - 1)
      else if face = ''B'' then Some (''z'', - 1, 1)
      else None)"

definition rotateFace :: "string \<Rightarrow> bool \<Rightarrow> real \<Rightarrow> int \<Rightarrow> cube \<Rightarrow> promise \<times> cube" where
  \<comment> \<open>The default case returns \<open>Promise.resolve()\<close>, fulfilled with \<open>undefined\<close>.
      A caller that leaves out \<open>invert\<close> and \<open>duration\<close> passes \<open>False\<close> and 300.\<close>
  "rotateFace face inverted dur elapsed s =
     (case faceMove face of
        None \<Rightarrow> (Fulfilled JSUndefined, s)
      | Some (ax, idx, dir) \<Rightarrow>
          rotateLayer ax idx (if inverted then dir * (- 1) else dir) dur elapsed s)"

section \<open>Runs\<close>

text \<open>
  A move is a call of \<open>rotateFace\<close> followed by the animation frames that the browser
  delivers afterwards, each given by its clock reading less \<open>startTime\<close>. The result
  is the value with which the promise has been fulfilled when the frames are used up,
  if it has been, and the state then. A sequence of completed moves is one in which
  every promise is fulfilled with \<open>true\<close> before the next call is made.
\<close>

fun frames :: "int list \<Rightarrow> cube \<Rightarrow> jsval option \<times> cube" where
  "frames [] s = (None, s)"
| "frames (e # es) s =
     (case animateRotation e s of
        (True, s') \<Rightarrow> (Some (JSBool True), s')
      | (False, s') \<Rightarrow> frames es s')"

definition move :: "string \<Rightarrow> bool \<Rightarrow> real \<Rightarrow> int \<Rightarrow> int list \<Rightarrow> cube \<Rightarrow> jsval option \<times> cube" where
  "move face inverted dur e es s =
     (case rotateFace face inverted dur e s of
        (Fulfilled v, s') \<Rightarrow> (Some v, s')
      | (Pending, s') \<Rightarrow> frames es s')"

type_synonym request = "string \<times> bool \<times> real \<times> int \<times> int list"

fun completed :: "request list \<Rightarrow> cube \<Rightarrow> cube option" where
  "completed [] s = Some s"
| "completed ((face, inverted, dur, e, es) # ms) s =
     (case move face inverted dur e es s of
        (Some (JSBool True), s') \<Rightarrow> completed ms s'
      | (Some (JSBool False), s') \<Rightarrow> None
      | (Some JSUndefined, s') \<Rightarrow> None
      | (None, s') \<Rightarrow> None)"

section \<open>The grid\<close>

text \<open>
  A coordinate is canonical when it is \<open>-1\<close>, \<open>0\<close> or \<open>1\<close> times the grid unit 1.02; an
  angle is a quarter turn when it is a whole multiple of \<open>pi / 2\<close>, which is to say that
  the snap of the source leaves it as it is. A cubie is snapped when it is a child of the
  scene, as every cubie is while no move is in flight, stands on a canonical grid point
  and has quarter turns for its three Euler angles.
\<close>

definition onGrid :: "real \<Rightarrow> bool" where
  "onGrid c = (c = - 1.02 \<or> c = 0 \<or> c = 1.02)"

fun gridPoint :: "vec3 \<Rightarrow> bool" where
  "gridPoint (x, y, z) = (onGrid x \<and> onGrid y \<and> onGrid z)"

definition quarter :: "real \<Rightarrow> bool" where
  "quarter a = (snapTo (pi / 2) a = a)"

fun quarterTurns :: "vec3 \<Rightarrow> bool" where
  "quarterTurns (x, y, z) = (quarter x \<and> quarter y \<and> quarter z)"

definition snappedMesh :: "object3d \<Rightarrow> bool" where
  "snappedMesh m = (parent m = Scene \<and> gridPoint (position m) \<and> quarterTurns (rotation m))"

definition snapped :: "cube \<Rightarrow> bool" where
  "snapped s = list_all snappedMesh (cubies s)"

fun nearPoint :: "vec3 \<Rightarrow> vec3 \<Rightarrow> bool" where
  \<comment> \<open>Each coordinate is less than half the grid unit away from that of \<open>g\<close>.\<close>
  "nearPoint (x, y, z) (gx, gy, gz) =
     (\<bar>x - gx\<bar> < 0.51 \<and> \<bar>y - gy\<bar> < 0.51 \<and> \<bar>z - gz\<bar> < 0.51)"

definition sameTransforms :: "cube \<Rightarrow> cube \<Rightarrow> bool" where
  \<comment> \<open>Every cubie has the same world position and the same world orientation in both.\<close>
  "sameTransforms s s' =
     (map (matrixWorld (pivot s')) (cubies s') = map (matrixWorld (pivot s)) (cubies s))"

definition gridPoints :: "vec3 list" where
  "gridPoints = map position buildCube"

definition occupied :: "cube \<Rightarrow> bool" where
  \<comment> \<open>The cubies are children of the scene and stand on the grid points, one on each.\<close>
  "occupied s =
     (list_all (\<lambda>m. parent m = Scene) (cubies s) \<and>
      distinct (map position (cubies s)) \<and>
      set (map position (cubies s)) = set gridPoints)"

fun coordinate :: "string \<Rightarrow> vec3 \<Rightarrow> real" where
  \<comment> \<open>The component of a world position along an axis.\<close>
  "coordinate ax (x, y, z) = (if ax = ''x'' then x else if ax = ''y'' then y else z)"

fun clamped :: "progress \<Rightarrow> bool" where
  "clamped (Progress p) = (0 \<le> p \<and> p \<le> 1)"
| "clamped NaN = False"
| "clamped MinusInfinity = False"

text \<open>
  The net effect of a completed quarter turn on one mesh of the layer: attached to the
  reset pivot, carried by the pivot at its target angle, and brought back to the scene
  with both snaps.
\<close>

definition quarterTurn :: "string \<Rightarrow> int \<Rightarrow> mat3" where
  "quarterTurn ax d = makeRotationFromEuler (setAxis ax ((pi / 2) * of_int d) (0, 0, 0))"

definition origin :: object3d where
  "origin = \<lparr>position = (0, 0, 0), rotation = (0, 0, 0), parent = Scene\<rparr>"

definition turnMesh :: "string \<Rightarrow> int \<Rightarrow> object3d \<Rightarrow> object3d" where
  "turnMesh ax d m =
     detach (origin\<lparr>rotation := setAxis ax ((pi / 2) * of_int d) (0, 0, 0)\<rparr>)
            (attach Pivot origin m)"

definition turnIf :: "string \<Rightarrow> int \<Rightarrow> int \<Rightarrow> object3d \<Rightarrow> object3d" where
  "turnIf ax idx d m = (if inLayer ax idx (position m) then turnMesh ax d m else m)"

definition turnLayer :: "string \<Rightarrow> int \<Rightarrow> int \<Rightarrow> object3d list \<Rightarrow> object3d list" where
  "turnLayer ax idx d cs = map (turnIf ax idx d) cs"

text \<open>
  The same turn on a world transform and on a position alone: the rotation of the
  quarter turn applied from the left.
\<close>

fun carry :: "mat3 \<Rightarrow> transform \<Rightarrow> transform" where
  "carry q (r, t) = (multiply q r, applyMatrix q t)"

definition turnPoint :: "string \<Rightarrow> int \<Rightarrow> int \<Rightarrow> vec3 \<Rightarrow> vec3" where
  "turnPoint ax idx d p = (if inLayer ax idx p then applyMatrix (quarterTurn ax d) p else p)"

definition turned :: "string \<Rightarrow> int \<Rightarrow> int \<Rightarrow> cube \<Rightarrow> cube" where
  \<comment> \<open>The state in which a move on a cube at rest ends.\<close>
  "turned ax idx d s =
     s\<lparr>cubies := turnLayer ax idx d (cubies s),
       pivot := (pivot s)\<lparr>rotation := (0, 0, 0), position := (0, 0, 0)\<rparr>,
       isAnimating := False,
       scheduled := None,
       moveCompleteCalls := (if onMoveComplete s then moveCompleteCalls s + 1
                             else moveCompleteCalls s),
       pivotNonFinite := False\<rparr>"

text \<open>The sines and cosines of quarter turns, and the matrix they give.\<close>

definition quads :: "(real \<times> real) set" where
  "quads = {(1, 0), (0, 1), (- 1, 0), (0, - 1)}"

fun csMatrix :: "real \<times> real \<Rightarrow> real \<times> real \<Rightarrow> real \<times> real \<Rightarrow> mat3" where
  "csMatrix (a, b) (c, d) (e, f) =
     ((c * e, - c * f, d),
      (a * f + b * e * d, a * e - b * f * d, - b * c),
      (b * f - a * e * d, b * e + a * f * d, a * c))"

definition turns :: "mat3 set" where
  "turns = {csMatrix (1, 0) (1, 0) (1, 0),
            csMatrix (0, 1) (1, 0) (1, 0), csMatrix (0, - 1) (1, 0) (1, 0),
            csMatrix (1, 0) (0, 1) (1, 0), csMatrix (1, 0) (0, - 1) (1, 0),
            csMatrix (1, 0) (1, 0) (0, 1), csMatrix (1, 0) (1, 0) (0, - 1)}"

section \<open>States used as examples\<close>

definition inFlight :: cube where
  \<comment> \<open>The mounted cube just after \<open>rotateFace('R')\<close> has been called.\<close>
  "inFlight = snd (rotateFace ''R'' False 300 0 (mounted True))"

definition drifted :: cube where
  \<comment> \<open>The mounted cube with its first cubie 0.3 off its grid point along \<open>x\<close>.\<close>
  "drifted = (mounted True)\<lparr>cubies := (cubies (mounted True))
                [0 := \<lparr>position = (- 0.72, - 1.02, - 1.02), rotation = (0, 0, 0), parent = Scene\<rparr>]\<rparr>"

text \<open>The state after a list of frames, whether or not one of them ended the move.\<close>

fun sampled :: "int list \<Rightarrow> cube \<Rightarrow> cube" where
  "sampled [] s = s"
| "sampled (t # ts) s = sampled ts (snd (animateRotation t s))"

section \<open>Snapping and quarter turns\<close>

lemma Math_round_of_int: "Math_round (of_int k) = of_int k"
  by (simp add: Math_round_def)

lemma Math_round_numerals:
  "Math_round 0 = 0" "Math_round 1 = 1" "Math_round (- 1) = - 1" "Math_round 2 = 2" "Math_round (- 2) = - 2"
  by (simp_all add: Math_round_def)

lemma snap_onGrid: "onGrid c \<Longrightarrow> snapTo 1.02 c = c"
  by (auto simp: onGrid_def snapTo_def Math_round_numerals)

lemma onGrid_uminus: "onGrid (- c) = onGrid c"
  by (auto simp: onGrid_def)

lemma snapPosition_gridPoint: "gridPoint p \<Longrightarrow> snapPosition p = p"
  by (cases p) (simp add: snap_onGrid [simplified])

lemma quarter_iff: "quarter a \<longleftrightarrow> (\<exists>k::int. a = of_int k * (pi / 2))"
proof
  assume "quarter a"
  then have "a = of_int \<lfloor>a / (pi / 2) + 1 / 2\<rfloor> * (pi / 2)"
    by (simp add: quarter_def snapTo_def Math_round_def)
  then show "\<exists>k::int. a = of_int k * (pi / 2)" ..
next
  assume "\<exists>k::int. a = of_int k * (pi / 2)"
  then obtain k :: int where "a = of_int k * (pi / 2)" ..
  then show "quarter a" by (simp add: quarter_def snapTo_def Math_round_of_int)
qed

lemma snapTo_nearest:
  assumes "0 < u" "\<bar>v - of_int k * u\<bar> < u / 2"
  shows "snapTo u v = of_int k * u"
proof -
  from assms have "\<bar>v / u - of_int k\<bar> < 1 / 2"
    by (simp add: abs_less_iff field_simps)
  then have "of_int k \<le> v / u + 1 / 2" and "v / u + 1 / 2 < of_int k + 1"
    by linarith+
  then have "\<lfloor>v / u + 1 / 2\<rfloor> = k" by (simp only: floor_eq_iff)
  then show ?thesis by (simp add: snapTo_def Math_round_def)
qed

lemma onGrid_iff: "onGrid c \<longleftrightarrow> (\<exists>i \<in> {- 1, 0, 1 :: int}. c = of_int i * 1.02)"
  by (auto simp: onGrid_def)

lemma quarter_snapTo: "quarter (snapTo (pi / 2) x)"
  unfolding quarter_iff snapTo_def Math_round_def by blast

lemma quarterTurns_snapRotation: "quarterTurns (snapRotation e)"
  by (cases e) (simp add: quarter_snapTo)

lemma snapRotation_quarterTurns: "quarterTurns e \<Longrightarrow> snapRotation e = e"
  by (cases e) (simp add: quarter_def)

lemma quarter_cs: assumes "quarter a" shows "(cos a, sin a) \<in> quads"
proof -
  from assms obtain k :: int where a: "a = of_int k * (pi / 2)" by (auto simp: quarter_iff)
  define q r where "q = (k + 1) div 4" and "r = (k + 1) mod 4 - 1"
  have k: "k = 4 * q + r" and r: "- 1 \<le> r" "r < 3" unfolding q_def r_def by presburger+
  have a2: "a = of_int r * (pi / 2) + 2 * pi * of_int q" unfolding a k by (simp add: algebra_simps)
  have c: "cos a = cos (of_int r * (pi / 2))" and s: "sin a = sin (of_int r * (pi / 2))"
    unfolding a2 by (simp_all add: cos_add sin_add)
  from r have "r = - 1 \<or> r = 0 \<or> r = 1 \<or> r = 2" by arith
  then show ?thesis unfolding c s quads_def
    by (elim disjE) simp_all
qed

lemma makeRotationFromEuler_cs:
  "makeRotationFromEuler (x, y, z) = csMatrix (cos x, sin x) (cos y, sin y) (cos z, sin z)"
  by (simp add: Let_def)

lemma euler_roundtrip_cs:
  "r \<in> turns \<Longrightarrow> a \<in> quads \<Longrightarrow> b \<in> quads \<Longrightarrow> c \<in> quads \<Longrightarrow>
   makeRotationFromEuler (snapRotation (setFromRotationMatrix (multiply r (csMatrix a b c))))
     = multiply r (csMatrix a b c)"
  unfolding quads_def turns_def
  apply (elim insertE emptyE)
  apply (simp_all add: Math_atan2_def clamp_def snapTo_def Math_round_numerals Let_def)
  done

lemma euler_snapped_cs:
  "a \<in> quads \<Longrightarrow> b \<in> quads \<Longrightarrow> c \<in> quads \<Longrightarrow>
   snapRotation (setFromRotationMatrix (csMatrix a b c)) = setFromRotationMatrix (csMatrix a b c)"
  unfolding quads_def
  apply (elim insertE emptyE)
  apply (simp_all add: Math_atan2_def clamp_def snapTo_def Math_round_numerals Let_def)
  done

lemma multiply_identity: "multiply ((1, 0, 0), (0, 1, 0), (0, 0, 1)) m = m"
  by (cases m rule: prod_cases3; cases "fst m"; cases "fst (snd m)"; cases "snd (snd m)") auto

lemma identity_turn: "((1, 0, 0), (0, 1, 0), (0, 0, 1)) \<in> turns"
  by (simp add: turns_def)

lemma euler_roundtrip:
  assumes "r \<in> turns" "quarterTurns e"
  shows "makeRotationFromEuler (snapRotation (setFromRotationMatrix (multiply r (makeRotationFromEuler e))))
     = multiply r (makeRotationFromEuler e)"
proof -
  obtain x y z where e: "e = (x, y, z)" by (cases e)
  with assms(2) have "(cos x, sin x) \<in> quads" "(cos y, sin y) \<in> quads" "(cos z, sin z) \<in> quads"
    by (simp_all add: quarter_cs)
  then show ?thesis unfolding e makeRotationFromEuler_cs by (rule euler_roundtrip_cs [OF assms(1)])
qed

lemma euler_snapped:
  assumes "quarterTurns e"
  shows "snapRotation (setFromRotationMatrix (makeRotationFromEuler e)) = setFromRotationMatrix (makeRotationFromEuler e)"
proof -
  obtain x y z where e: "e = (x, y, z)" by (cases e)
  with assms have "(cos x, sin x) \<in> quads" "(cos y, sin y) \<in> quads" "(cos z, sin z) \<in> quads"
    by (simp_all add: quarter_cs)
  then show ?thesis unfolding e makeRotationFromEuler_cs by (rule euler_snapped_cs)
qed

lemma euler_fixed:
  assumes "quarterTurns e"
  shows "makeRotationFromEuler (setFromRotationMatrix (makeRotationFromEuler e)) = makeRotationFromEuler e"
  using euler_roundtrip [OF identity_turn assms] euler_snapped [OF assms]
  by (simp add: multiply_identity)

lemma quarterTurn_turns: "ax \<in> {''x'', ''y'', ''z''} \<Longrightarrow> d \<in> {1, - 1} \<Longrightarrow> quarterTurn ax d \<in> turns"
  by (auto simp: quarterTurn_def turns_def Let_def)

lemma turn_gridPoint: "r \<in> turns \<Longrightarrow> gridPoint p \<Longrightarrow> gridPoint (applyMatrix r p)"
  by (cases p) (auto simp: turns_def onGrid_uminus)

section \<open>One mesh through a move\<close>

lemma addVectors_zero: "addVectors v (0, 0, 0) = v"
  by (cases v) simp

lemma applyMatrix_identity: "applyMatrix ((1, 0, 0), (0, 1, 0), (0, 0, 1)) v = v"
  by (cases v) simp

lemma makeRotationFromEuler_zero: "makeRotationFromEuler (0, 0, 0) = ((1, 0, 0), (0, 1, 0), (0, 0, 1))"
  by (simp add: Let_def)

lemma attach_Pivot_reset:
  assumes "parent m = Scene" "position pv = (0, 0, 0)" "rotation pv = (0, 0, 0)"
  shows "attach Pivot pv m =
    \<lparr>position = position m,
     rotation = setFromRotationMatrix (makeRotationFromEuler (rotation m)),
     parent = Pivot\<rparr>"
  using assms
  by (simp add: attach_def matrixWorld_def matrix_def decompose_def
      makeRotationFromEuler_zero applyMatrix_identity multiply_identity addVectors_zero)

lemma detach_Pivot:
  assumes "parent m = Pivot" "position pv = (0, 0, 0)"
  shows "detach pv m =
    \<lparr>position = snapPosition (applyMatrix (makeRotationFromEuler (rotation pv)) (position m)),
     rotation = snapRotation (setFromRotationMatrix
                  (multiply (makeRotationFromEuler (rotation pv)) (makeRotationFromEuler (rotation m)))),
     parent = Scene\<rparr>"
  using assms
  by (simp add: detach_def attach_def matrixWorld_def matrix_def decompose_def Let_def addVectors_zero)

lemma turnMesh_Scene:
  assumes "parent m = Scene"
  shows "turnMesh ax d m =
    \<lparr>position = snapPosition (applyMatrix (quarterTurn ax d) (position m)),
     rotation = snapRotation (setFromRotationMatrix (multiply (quarterTurn ax d)
                  (makeRotationFromEuler (setFromRotationMatrix (makeRotationFromEuler (rotation m)))))),
     parent = Scene\<rparr>"
  using assms
  by (simp add: turnMesh_def attach_Pivot_reset detach_Pivot origin_def quarterTurn_def)

lemma turnMesh_snappedMesh:
  assumes "snappedMesh m" "ax \<in> {''x'', ''y'', ''z''}" "d \<in> {1, - 1}"
  shows "turnMesh ax d m =
    \<lparr>position = applyMatrix (quarterTurn ax d) (position m),
     rotation = snapRotation (setFromRotationMatrix (multiply (quarterTurn ax d)
                  (makeRotationFromEuler (rotation m)))),
     parent = Scene\<rparr>"
proof -
  from assms(1) have m: "parent m = Scene" "gridPoint (position m)" "quarterTurns (rotation m)"
    by (simp_all add: snappedMesh_def)
  have q: "quarterTurn ax d \<in> turns" using assms(2,3) by (rule quarterTurn_turns)
  show ?thesis
    by (simp add: turnMesh_Scene [OF m(1)] euler_fixed [OF m(3)]
        snapPosition_gridPoint [OF turn_gridPoint [OF q m(2)]])
qed

lemma turnMesh_keeps_snapped:
  assumes "snappedMesh m" "ax \<in> {''x'', ''y'', ''z''}" "d \<in> {1, - 1}"
  shows "snappedMesh (turnMesh ax d m)"
proof -
  from assms(1) have m: "gridPoint (position m)" by (simp add: snappedMesh_def)
  have q: "quarterTurn ax d \<in> turns" using assms(2,3) by (rule quarterTurn_turns)
  show ?thesis
    by (simp add: turnMesh_snappedMesh [OF assms] snappedMesh_def
        turn_gridPoint [OF q m] quarterTurns_snapRotation)
qed

lemma turnMesh_orientation:
  assumes "snappedMesh m" "ax \<in> {''x'', ''y'', ''z''}" "d \<in> {1, - 1}"
  shows "makeRotationFromEuler (rotation (turnMesh ax d m)) =
         multiply (quarterTurn ax d) (makeRotationFromEuler (rotation m))"
proof -
  from assms(1) have m: "quarterTurns (rotation m)" by (simp add: snappedMesh_def)
  have q: "quarterTurn ax d \<in> turns" using assms(2,3) by (rule quarterTurn_turns)
  show ?thesis
    by (simp add: turnMesh_snappedMesh [OF assms] euler_roundtrip [OF q m])
qed

lemma length_forEach: "length (forEach act f cs) = length cs"
  unfolding forEach_def by (induction act arbitrary: cs) simp_all

lemma nth_forEach:
  "distinct act \<Longrightarrow> j < length cs \<Longrightarrow>
   forEach act f cs ! j = (if j \<in> set act then f (cs ! j) else cs ! j)"
  unfolding forEach_def
proof (induction act arbitrary: cs)
  case Nil
  then show ?case by simp
next
  case (Cons i act)
  then show ?case by (cases "j = i") auto
qed

lemma set_selectLayer:
  "set (selectLayer ax idx s) =
   {i. i < length (cubies s) \<and> inLayer ax idx (getWorldPosition (pivot s) (cubies s ! i))}"
  by (auto simp: selectLayer_def)

lemma distinct_selectLayer: "distinct (selectLayer ax idx s)"
  by (simp add: selectLayer_def)

lemma getWorldPosition_Scene: "parent m = Scene \<Longrightarrow> getWorldPosition pv m = position m"
  by (simp add: getWorldPosition_def matrixWorld_def matrix_def)

lemma attach_matrix: "matrix pv = matrix pv' \<Longrightarrow> attach p pv m = attach p pv' m"
  by (cases p; cases "parent m") (simp_all add: attach_def matrixWorld_def)

lemma detach_matrix: "matrix pv = matrix pv' \<Longrightarrow> detach pv m = detach pv' m"
  by (simp add: detach_def attach_matrix [of pv pv'])

lemma setAxis_setAxis: "setAxis ax t (setAxis ax a v) = setAxis ax t v"
  by (cases v) simp

lemma cleanup_drive: "cleanup a (drive a p s) = cleanup a s"
  by (simp add: cleanup_def drive_def Let_def setAxis_setAxis)

lemma cleanup_diverge: "cleanup a (diverge a s) = cleanup a s"
  by (simp add: cleanup_def diverge_def Let_def)

lemma cleanup_beginRotation:
  assumes "list_all (\<lambda>m. parent m = Scene) (cubies s)"
  shows "cleanup \<lparr>axis = ax, targetRotation = (pi / 2) * of_int d, duration = dur,
                  activeCubies = selectLayer ax idx s\<rparr> (beginRotation ax idx d dur s)
         = turned ax idx d s"
proof -
  let ?pv0 = "(pivot s)\<lparr>rotation := (0, 0, 0), position := (0, 0, 0)\<rparr>"
  let ?pvT = "?pv0\<lparr>rotation := setAxis ax ((pi / 2) * of_int d) (0, 0, 0)\<rparr>"
  let ?act = "selectLayer ax idx s"
  have a0: "attach Pivot ?pv0 = attach Pivot origin"
    by (rule ext, rule attach_matrix) (simp add: matrix_def origin_def)
  have dT: "detach ?pvT = detach (origin\<lparr>rotation := setAxis ax ((pi / 2) * of_int d) (0, 0, 0)\<rparr>)"
    by (rule ext, rule detach_matrix) (simp add: matrix_def origin_def)
  have "forEach ?act (detach ?pvT) (forEach ?act (attach Pivot ?pv0) (cubies s))
        = turnLayer ax idx d (cubies s)"
  proof (rule nth_equalityI)
    show "length (forEach ?act (detach ?pvT) (forEach ?act (attach Pivot ?pv0) (cubies s)))
          = length (turnLayer ax idx d (cubies s))"
      by (simp add: length_forEach turnLayer_def)
  next
    fix j assume "j < length (forEach ?act (detach ?pvT) (forEach ?act (attach Pivot ?pv0) (cubies s)))"
    then have j: "j < length (cubies s)" by (simp add: length_forEach)
    with assms have "parent (cubies s ! j) = Scene" by (simp add: list_all_length)
    with j show "forEach ?act (detach ?pvT) (forEach ?act (attach Pivot ?pv0) (cubies s)) ! j
          = turnLayer ax idx d (cubies s) ! j"
      unfolding a0 dT
      by (simp add: nth_forEach distinct_selectLayer length_forEach set_selectLayer
          getWorldPosition_Scene turnLayer_def turnIf_def turnMesh_def)
  qed
  then show ?thesis
    by (simp add: cleanup_def beginRotation_def turned_def Let_def)
qed

section \<open>The frames of a move\<close>

lemma scheduled_beginRotation:
  "scheduled (beginRotation ax idx d dur s) =
   Some \<lparr>axis = ax, targetRotation = (pi / 2) * of_int d, duration = dur,
         activeCubies = selectLayer ax idx s\<rparr>"
  by (simp add: beginRotation_def Let_def)

lemma animateRotation_resolves:
  "scheduled s = Some a \<Longrightarrow> animateRotation e s = (True, s') \<Longrightarrow> s' = cleanup a s"
  by (auto simp: animateRotation_def cleanup_drive split: progress.splits if_splits)

lemma animateRotation_continues:
  "scheduled s = Some a \<Longrightarrow> animateRotation e s = (False, s') \<Longrightarrow>
   (\<exists>p. s' = drive a p s) \<or> s' = diverge a s"
  by (auto simp: animateRotation_def split: progress.splits if_splits)

lemma animateRotation_idle: "scheduled s = None \<Longrightarrow> animateRotation e s = (False, s)"
  by (simp add: animateRotation_def)

lemma drive_fields:
  "scheduled (drive a p s) = scheduled s"
  "cubies (drive a p s) = cubies s"
  "isAnimating (drive a p s) = isAnimating s"
  "onMoveComplete (drive a p s) = onMoveComplete s"
  "moveCompleteCalls (drive a p s) = moveCompleteCalls s"
  by (simp_all add: drive_def Let_def)

lemma diverge_fields:
  "scheduled (diverge a s) = scheduled s"
  "cubies (diverge a s) = cubies s"
  "pivot (diverge a s) = pivot s"
  "isAnimating (diverge a s) = isAnimating s"
  "onMoveComplete (diverge a s) = onMoveComplete s"
  "moveCompleteCalls (diverge a s) = moveCompleteCalls s"
  by (simp_all add: diverge_def)

lemma animateRotation_goes_on:
  assumes "scheduled s = Some a" "animateRotation e s = (False, s1)"
  shows "scheduled s1 = Some a" and "cleanup a s1 = cleanup a s" and "cubies s1 = cubies s"
    and "isAnimating s1 = isAnimating s" and "onMoveComplete s1 = onMoveComplete s"
    and "moveCompleteCalls s1 = moveCompleteCalls s"
  using animateRotation_continues [OF assms] assms(1)
  by (auto simp: drive_fields diverge_fields cleanup_drive cleanup_diverge)

lemma frames_fulfilled:
  "scheduled s = Some a \<Longrightarrow> frames es s = (Some v, s') \<Longrightarrow> v = JSBool True \<and> s' = cleanup a s"
proof (induction es arbitrary: s)
  case Nil
  then show ?case by simp
next
  case (Cons e es)
  obtain b s1 where step: "animateRotation e s = (b, s1)" by (cases "animateRotation e s")
  show ?case
  proof (cases b)
    case True
    with Cons.prems step show ?thesis by (auto dest: animateRotation_resolves)
  next
    case False
    with step have st: "animateRotation e s = (False, s1)" by simp
    note on = animateRotation_goes_on [OF Cons.prems(1) st]
    from False step Cons.prems(2) have "frames es s1 = (Some v, s')" by simp
    with on(1) have "v = JSBool True \<and> s' = cleanup a s1" by (rule Cons.IH)
    then show ?thesis by (simp add: on(2))
  qed
qed

lemma frames_pending:
  "scheduled s = Some a \<Longrightarrow> frames es s = (None, s') \<Longrightarrow>
   scheduled s' = Some a \<and> cubies s' = cubies s \<and> isAnimating s' = isAnimating s \<and>
   onMoveComplete s' = onMoveComplete s \<and> moveCompleteCalls s' = moveCompleteCalls s"
proof (induction es arbitrary: s)
  case Nil
  then show ?case by simp
next
  case (Cons e es)
  obtain b s1 where step: "animateRotation e s = (b, s1)" by (cases "animateRotation e s")
  with Cons.prems(2) have b: "\<not> b" and rest: "frames es s1 = (None, s')"
    by (cases b; simp)+
  from b step have st: "animateRotation e s = (False, s1)" by simp
  note on = animateRotation_goes_on [OF Cons.prems(1) st]
  from Cons.IH [OF on(1) rest] show ?case by (simp add: on)
qed

lemma faceMove_cases:
  assumes "faceMove face = Some (ax, idx, d)"
  shows "ax \<in> {''x'', ''y'', ''z''}" and "d \<in> {1, - 1}" and "idx = - d"
  using assms by (auto simp: faceMove_def split: if_splits)

lemma rotateLayer_busy: "isAnimating s \<Longrightarrow> rotateLayer ax idx d dur e s = (Fulfilled (JSBool False), s)"
  by (simp add: rotateLayer_def)

lemma move_fulfilled:
  assumes "move face inverted dur e es s = (Some (JSBool True), s')"
  obtains ax idx d where "faceMove face = Some (ax, idx, d)" and "\<not> isAnimating s"
    and "s' = cleanup \<lparr>axis = ax, targetRotation = (pi / 2) * of_int (if inverted then - d else d),
                       duration = dur,
                       activeCubies = selectLayer ax idx s\<rparr>
               (beginRotation ax idx (if inverted then - d else d) dur s)"
proof (cases "faceMove face")
  case None
  with assms show ?thesis by (simp add: move_def rotateFace_def)
next
  case (Some t)
  obtain ax idx d where t: "t = (ax, idx, d)" by (cases t)
  let ?d = "if inverted then - d else d"
  let ?b = "beginRotation ax idx ?d dur s"
  have rf: "rotateFace face inverted dur e s = rotateLayer ax idx ?d dur e s"
    by (simp add: rotateFace_def Some t)
  show ?thesis
  proof (cases "isAnimating s")
    case True
    with assms rf show ?thesis by (simp add: move_def rotateLayer_busy)
  next
    case False
    obtain b s1 where step: "animateRotation e ?b = (b, s1)"
      by (cases "animateRotation e ?b")
    have "s' = cleanup \<lparr>axis = ax, targetRotation = (pi / 2) * of_int ?d, duration = dur,
                        activeCubies = selectLayer ax idx s\<rparr> ?b"
    proof (cases b)
      case True
      with assms rf False step have "s' = s1" by (simp add: move_def rotateLayer_def)
      moreover from True step have "animateRotation e ?b = (True, s1)" by simp
      note animateRotation_resolves [OF scheduled_beginRotation this]
      ultimately show ?thesis by simp
    next
      case b: False
      with step have "animateRotation e ?b = (False, s1)" by simp
      note on = animateRotation_goes_on [OF scheduled_beginRotation this]
      from b assms rf False step have "frames es s1 = (Some (JSBool True), s')"
        by (simp add: move_def rotateLayer_def)
      with on(1) have "s' = cleanup \<lparr>axis = ax, targetRotation = (pi / 2) * of_int ?d,
            duration = dur, activeCubies = selectLayer ax idx s\<rparr> s1"
        using frames_fulfilled by blast
      then show ?thesis by (simp only: on(2))
    qed
    moreover from Some t have "faceMove face = Some (ax, idx, d)" by simp
    ultimately show ?thesis using False by (intro that [of ax idx d])
  qed
qed

lemma snapped_Scene: "snapped s \<Longrightarrow> list_all (\<lambda>m. parent m = Scene) (cubies s)"
  by (simp add: snapped_def snappedMesh_def list_all_iff)

lemma move_turned:
  assumes "snapped s" "move face inverted dur e es s = (Some (JSBool True), s')"
  obtains ax idx d where "faceMove face = Some (ax, idx, d)" and "\<not> isAnimating s"
    and "s' = turned ax idx (if inverted then - d else d) s"
  using move_fulfilled [OF assms(2)] cleanup_beginRotation [OF snapped_Scene [OF assms(1)]]
  by metis

lemma snapped_turned:
  assumes "snapped s" "ax \<in> {''x'', ''y'', ''z''}" "d \<in> {1, - 1}"
  shows "snapped (turned ax idx d s)"
  using assms
  by (auto simp: snapped_def turned_def turnLayer_def turnIf_def list_all_iff turnMesh_keeps_snapped)

lemma move_keeps_snapped:
  assumes "snapped s" "move face inverted dur e es s = (Some (JSBool True), s')"
  shows "snapped s' \<and> length (cubies s') = length (cubies s)"
proof -
  from assms obtain ax idx d where f: "faceMove face = Some (ax, idx, d)"
    and s': "s' = turned ax idx (if inverted then - d else d) s"
    by (rule move_turned)
  from faceMove_cases [OF f] have "ax \<in> {''x'', ''y'', ''z''}" "(if inverted then - d else d) \<in> {1, - 1}"
    by auto
  with assms(1) show ?thesis unfolding s'
    by (simp add: snapped_turned) (simp add: turned_def turnLayer_def)
qed

lemma snapped_mounted: "snapped (mounted obs)"
  by (simp add: snapped_def mounted_def buildCube_def mesh_def snappedMesh_def onGrid_def
      quarter_def snapTo_def Math_round_numerals TOTAL_SIZE_def CUBE_SIZE_def SPACING_def)

lemma length_mounted: "length (cubies (mounted obs)) = 27"
  by (simp add: mounted_def buildCube_def)

lemma rotateFace_rotateLayer:
  "faceMove face = Some (ax, idx, d) \<Longrightarrow>
   rotateFace face inverted dur e s = rotateLayer ax idx (if inverted then - d else d) dur e s"
  by (simp add: rotateFace_def)

lemma move_completes:
  assumes "faceMove face = Some (ax, idx, d)" "\<not> isAnimating s"
    "list_all (\<lambda>m. parent m = Scene) (cubies s)" "0 < dur" "dur \<le> of_int e"
  shows "move face inverted dur 0 [e] s =
         (Some (JSBool True), turned ax idx (if inverted then - d else d) s)"
proof -
  define dd where "dd = (if inverted then - d else d)"
  define a where "a = \<lparr>axis = ax, targetRotation = (pi / 2) * of_int dd, duration = dur,
                        activeCubies = selectLayer ax idx s\<rparr>"
  define b where "b = beginRotation ax idx dd dur s"
  have sch: "scheduled b = Some a" and dur: "duration a = dur"
    by (simp_all add: a_def b_def scheduled_beginRotation)
  have first: "animateRotation 0 b = (False, drive a 0 b)"
    using assms(4) by (simp add: animateRotation_def sch dur progressAt_def)
  have "progressAt e dur = Progress 1"
    using assms(4,5) by (simp add: progressAt_def min_def)
  then have last: "animateRotation e (drive a 0 b) = (True, cleanup a b)"
    by (simp add: animateRotation_def drive_fields sch dur cleanup_drive)
  have "rotateLayer ax idx dd dur 0 s = (Pending, drive a 0 b)"
    using assms(2) first by (simp add: rotateLayer_def b_def)
  then have "move face inverted dur 0 [e] s = (Some (JSBool True), cleanup a b)"
    using last by (simp add: move_def rotateFace_rotateLayer [OF assms(1)] dd_def)
  also have "cleanup a b = turned ax idx dd s"
    unfolding a_def b_def by (rule cleanup_beginRotation [OF assms(3)])
  finally show ?thesis by (simp add: dd_def)
qed

lemma faceMove_None: "faceMove face = None \<longleftrightarrow> face \<notin> {''U'', ''D'', ''L'', ''R'', ''F'', ''B''}"
  by (simp add: faceMove_def)

lemma rotateFace_unknown:
  "faceMove face = None \<Longrightarrow> rotateFace face inverted dur e s = (Fulfilled JSUndefined, s)"
  by (simp add: rotateFace_def)

lemma rotateFace_busy:
  "isAnimating s \<Longrightarrow> faceMove face \<noteq> None \<Longrightarrow>
   rotateFace face inverted dur e s = (Fulfilled (JSBool False), s)"
  by (auto simp: rotateFace_def rotateLayer_busy)

lemma rotateFace_busy_state: "isAnimating s \<Longrightarrow> snd (rotateFace face inverted dur e s) = s"
  by (cases "faceMove face") (auto simp: rotateFace_def rotateLayer_busy)

lemma rotateFace_pending:
  assumes "faceMove face = Some (ax, idx, d)" "\<not> isAnimating s" "dur \<noteq> 0" "of_int e / dur < 1"
  shows "fst (rotateFace face inverted dur e s) = Pending"
    and "isAnimating (snd (rotateFace face inverted dur e s))"
proof -
  define dd where "dd = (if inverted then - d else d)"
  define b where "b = beginRotation ax idx dd dur s"
  have "progressAt e dur = Progress (of_int e / dur)" using assms(3,4) by (simp add: progressAt_def)
  with assms(4) obtain a p where "animateRotation e b = (False, drive a p b)"
    by (simp add: animateRotation_def b_def scheduled_beginRotation)
  then have "rotateFace face inverted dur e s = (Pending, drive a p b)"
    using assms(2) by (simp add: rotateFace_rotateLayer [OF assms(1)] rotateLayer_def b_def dd_def)
  moreover have "isAnimating b" by (simp add: b_def beginRotation_def Let_def)
  ultimately show "fst (rotateFace face inverted dur e s) = Pending"
    and "isAnimating (snd (rotateFace face inverted dur e s))"
    by (simp_all add: drive_fields)
qed

lemma cleanup_fields:
  "isAnimating (cleanup a s) = False"
  "scheduled (cleanup a s) = None"
  "rotation (pivot (cleanup a s)) = (0, 0, 0)"
  "position (pivot (cleanup a s)) = position (pivot s)"
  "onMoveComplete (cleanup a s) = onMoveComplete s"
  "moveCompleteCalls (cleanup a s) = moveCompleteCalls s + (if onMoveComplete s then 1 else 0)"
  by (simp_all add: cleanup_def Let_def)

lemma beginRotation_fields:
  "isAnimating (beginRotation ax idx d dur s) = True"
  "rotation (pivot (beginRotation ax idx d dur s)) = (0, 0, 0)"
  "position (pivot (beginRotation ax idx d dur s)) = (0, 0, 0)"
  "onMoveComplete (beginRotation ax idx d dur s) = onMoveComplete s"
  "moveCompleteCalls (beginRotation ax idx d dur s) = moveCompleteCalls s"
  by (simp_all add: beginRotation_def Let_def)

lemma frames_idle: "scheduled s = None \<Longrightarrow> frames es s = (None, s)"
  by (induction es) (simp_all add: animateRotation_idle)

lemma sampled_idle: "scheduled s = None \<Longrightarrow> sampled ts s = s"
  by (induction ts) (simp_all add: animateRotation_idle)

lemma move_accepted:
  assumes "faceMove face = Some (ax, idx, d)" "\<not> isAnimating s"
    and "a = \<lparr>axis = ax, targetRotation = (pi / 2) * of_int (if inverted then - d else d),
               duration = dur, activeCubies = selectLayer ax idx s\<rparr>"
    and "b = beginRotation ax idx (if inverted then - d else d) dur s"
    and "move face inverted dur e es s = (r, s')"
  shows "(r = Some (JSBool True) \<and> s' = cleanup a b) \<or>
         (r = None \<and> scheduled s' = Some a \<and> isAnimating s' \<and>
          moveCompleteCalls s' = moveCompleteCalls s)"
proof -
  have sch: "scheduled b = Some a" by (simp add: assms(3,4) scheduled_beginRotation)
  have rl: "rotateFace face inverted dur e s =
            (case animateRotation e b of
               (True, s') \<Rightarrow> (Fulfilled (JSBool True), s')
             | (False, s') \<Rightarrow> (Pending, s'))"
    using assms(2) by (simp add: rotateFace_rotateLayer [OF assms(1)] rotateLayer_def assms(4))
  obtain c s1 where step: "animateRotation e b = (c, s1)" by (cases "animateRotation e b")
  show ?thesis
  proof (cases c)
    case True
    with step rl assms(5) have "r = Some (JSBool True)" "s' = s1" by (simp_all add: move_def)
    moreover from True step have "s1 = cleanup a b" by (auto dest: animateRotation_resolves [OF sch])
    ultimately show ?thesis by simp
  next
    case False
    with step have st: "animateRotation e b = (False, s1)" by simp
    note on = animateRotation_goes_on [OF sch st]
    from False step rl assms(5) have fr: "frames es s1 = (r, s')" by (simp add: move_def)
    show ?thesis
    proof (cases r)
      case None
      with frames_pending [OF on(1)] fr show ?thesis
        by (simp add: on assms(4) beginRotation_fields)
    next
      case (Some v)
      with frames_fulfilled [OF on(1)] fr show ?thesis by (simp add: on(2))
    qed
  qed
qed

section \<open>The pivot during a move\<close>

lemma progressAt_positive:
  "0 < dur \<Longrightarrow> progressAt t dur = Progress (min (of_int t / dur) 1)"
  by (simp add: progressAt_def)

lemma drive_rotation:
  "rotation (pivot s) = setAxis (axis a) ang (0, 0, 0) \<Longrightarrow>
   rotation (pivot (drive a p s)) = setAxis (axis a) (targetRotation a * easeOut p) (0, 0, 0)"
  by (simp add: drive_def Let_def)

lemma sampled_inFlight:
  assumes "scheduled s = Some a" "rotation (pivot s) = setAxis (axis a) ang (0, 0, 0)"
    "isAnimating (sampled ts s)"
  shows "scheduled (sampled ts s) = Some a \<and>
         (\<exists>ang'. rotation (pivot (sampled ts s)) = setAxis (axis a) ang' (0, 0, 0))"
  using assms
proof (induction ts arbitrary: s ang)
  case Nil
  then show ?case by auto
next
  case (Cons t ts)
  obtain c s1 where step: "animateRotation t s = (c, s1)" by (cases "animateRotation t s")
  show ?case
  proof (cases c)
    case True
    with step Cons.prems(1) have "s1 = cleanup a s" by (auto dest: animateRotation_resolves)
    with step Cons.prems(3) show ?thesis by (simp add: sampled_idle cleanup_fields)
  next
    case False
    with step have st: "animateRotation t s = (False, s1)" by simp
    note sch1 = animateRotation_goes_on(1) [OF Cons.prems(1) st]
    from animateRotation_continues [OF Cons.prems(1) st]
    obtain ang1 where rot1: "rotation (pivot s1) = setAxis (axis a) ang1 (0, 0, 0)"
      using drive_rotation [OF Cons.prems(2)] Cons.prems(2) by (auto simp: diverge_fields)
    have eq: "sampled (t # ts) s = sampled ts s1" using step by simp
    from Cons.prems(3) have "isAnimating (sampled ts s1)" unfolding eq .
    with sch1 rot1 show ?thesis unfolding eq by (rule Cons.IH)
  qed
qed

section \<open>Counting a layer\<close>

lemma selectLayer_Scene:
  assumes "list_all (\<lambda>m. parent m = Scene) (cubies s)"
  shows "map (\<lambda>i. cubies s ! i) (selectLayer ax idx s)
         = filter (\<lambda>m. inLayer ax idx (position m)) (cubies s)"
proof -
  have "selectLayer ax idx s
        = filter (\<lambda>i. inLayer ax idx (position (cubies s ! i))) [0 ..< length (cubies s)]"
    unfolding selectLayer_def
    using assms by (intro filter_cong refl) (simp add: list_all_length getWorldPosition_Scene)
  then have "map (\<lambda>i. cubies s ! i) (selectLayer ax idx s)
        = filter (\<lambda>m. inLayer ax idx (position m)) (map (\<lambda>i. cubies s ! i) [0 ..< length (cubies s)])"
    by (simp add: filter_map comp_def)
  then show ?thesis by (simp add: map_nth)
qed

lemma length_selectLayer:
  assumes "list_all (\<lambda>m. parent m = Scene) (cubies s)"
  shows "length (selectLayer ax idx s)
         = length (filter (inLayer ax idx) (map position (cubies s)))"
proof -
  have "length (selectLayer ax idx s) = length (map (\<lambda>i. cubies s ! i) (selectLayer ax idx s))"
    by simp
  also have "\<dots> = length (filter (\<lambda>m. inLayer ax idx (position m)) (cubies s))"
    by (simp only: selectLayer_Scene [OF assms])
  also have "\<dots> = length (filter (inLayer ax idx) (map position (cubies s)))"
    by (simp add: filter_map comp_def)
  finally show ?thesis .
qed

lemma gridPoints_eq:
  "gridPoints =
   [(- 1.02, - 1.02, - 1.02), (- 1.02, - 1.02, 0), (- 1.02, - 1.02, 1.02),
    (- 1.02, 0, - 1.02), (- 1.02, 0, 0), (- 1.02, 0, 1.02),
    (- 1.02, 1.02, - 1.02), (- 1.02, 1.02, 0), (- 1.02, 1.02, 1.02),
    (0, - 1.02, - 1.02), (0, - 1.02, 0), (0, - 1.02, 1.02),
    (0, 0, - 1.02), (0, 0, 0), (0, 0, 1.02),
    (0, 1.02, - 1.02), (0, 1.02, 0), (0, 1.02, 1.02),
    (1.02, - 1.02, - 1.02), (1.02, - 1.02, 0), (1.02, - 1.02, 1.02),
    (1.02, 0, - 1.02), (1.02, 0, 0), (1.02, 0, 1.02),
    (1.02, 1.02, - 1.02), (1.02, 1.02, 0), (1.02, 1.02, 1.02)]"
  by (simp add: gridPoints_def buildCube_def mesh_def TOTAL_SIZE_def CUBE_SIZE_def SPACING_def)

lemma distinct_gridPoints: "distinct gridPoints"
  by (simp add: gridPoints_eq)

lemma layer_of_gridPoints:
  "ax \<in> {''x'', ''y'', ''z''} \<Longrightarrow> idx \<in> {- 1, 0, 1} \<Longrightarrow>
   length (filter (inLayer ax idx) gridPoints) = 9"
  by (auto simp: gridPoints_eq Let_def)

lemma occupied_layer:
  assumes "occupied s" "ax \<in> {''x'', ''y'', ''z''}" "idx \<in> {- 1, 0, 1}"
  shows "length (selectLayer ax idx s) = 9"
proof -
  from assms(1) have sc: "list_all (\<lambda>m. parent m = Scene) (cubies s)"
    and d: "distinct (map position (cubies s))"
    and g: "set (map position (cubies s)) = set gridPoints"
    by (simp_all add: occupied_def)
  have "length (selectLayer ax idx s) = card ({p. inLayer ax idx p} \<inter> set (map position (cubies s)))"
    by (simp only: length_selectLayer [OF sc] distinct_length_filter [OF d])
  also have "\<dots> = length (filter (inLayer ax idx) gridPoints)"
    by (simp only: g distinct_length_filter [OF distinct_gridPoints])
  finally show ?thesis by (simp only: layer_of_gridPoints [OF assms(2,3)])
qed

lemma gridPoint_far:
  "gridPoint w \<Longrightarrow> idx < - 1 \<or> 1 < idx \<Longrightarrow> \<not> inLayer ax idx w"
proof -
  assume g: "gridPoint w" and far: "idx < - 1 \<or> 1 < idx"
  obtain x y z where w: "w = (x, y, z)" by (cases w)
  from far have "real_of_int idx \<le> - 2 \<or> 2 \<le> real_of_int idx" by linarith
  with g show ?thesis unfolding w by (auto simp: onGrid_def Let_def)
qed

lemma snapped_out_of_range:
  assumes "snapped s" "idx < - 1 \<or> 1 < idx"
  shows "selectLayer ax idx s = []"
proof -
  have "filter (\<lambda>i. inLayer ax idx (getWorldPosition (pivot s) (cubies s ! i)))
          [0 ..< length (cubies s)] = []"
  proof (rule filter_False, rule ballI)
    fix i assume "i \<in> set [0 ..< length (cubies s)]"
    with assms(1) have "snappedMesh (cubies s ! i)" by (simp add: snapped_def list_all_length)
    then show "\<not> inLayer ax idx (getWorldPosition (pivot s) (cubies s ! i))"
      by (simp add: snappedMesh_def getWorldPosition_Scene gridPoint_far [OF _ assms(2)])
  qed
  then show ?thesis by (simp add: selectLayer_def)
qed

section \<open>Turns composed\<close>

lemma quarterTurn_values:
  "quarterTurn ''x'' 1 = ((1, 0, 0), (0, 0, - 1), (0, 1, 0))"
  "quarterTurn ''x'' (- 1) = ((1, 0, 0), (0, 0, 1), (0, - 1, 0))"
  "quarterTurn ''y'' 1 = ((0, 0, 1), (0, 1, 0), (- 1, 0, 0))"
  "quarterTurn ''y'' (- 1) = ((0, 0, - 1), (0, 1, 0), (1, 0, 0))"
  "quarterTurn ''z'' 1 = ((0, - 1, 0), (1, 0, 0), (0, 0, 1))"
  "quarterTurn ''z'' (- 1) = ((0, 1, 0), (- 1, 0, 0), (0, 0, 1))"
  by (simp_all add: quarterTurn_def Let_def)

lemma transform_cases:
  obtains a11 a12 a13 a21 a22 a23 a31 a32 a33 x y z
  where "t = (((a11, a12, a13), (a21, a22, a23), (a31, a32, a33)), (x :: real, y :: real, z :: real))"
  by (metis prod_cases3)

lemma carry_four:
  assumes "ax \<in> {''x'', ''y'', ''z''}" "d \<in> {1, - 1}"
  shows "carry (quarterTurn ax d) (carry (quarterTurn ax d)
           (carry (quarterTurn ax d) (carry (quarterTurn ax d) t))) = t"
  using assms by (cases t rule: transform_cases) (auto simp: quarterTurn_values)

lemma carry_back:
  assumes "ax \<in> {''x'', ''y'', ''z''}" "d \<in> {1, - 1}"
  shows "carry (quarterTurn ax (- d)) (carry (quarterTurn ax d) t) = t"
  using assms by (cases t rule: transform_cases) (auto simp: quarterTurn_values)

lemma inLayer_quarterTurn:
  assumes "ax \<in> {''x'', ''y'', ''z''}" "d \<in> {1, - 1}"
  shows "inLayer ax idx (applyMatrix (quarterTurn ax d) p) = inLayer ax idx p"
  using assms by (cases p) (auto simp: quarterTurn_values Let_def)

lemma turnIf_snapped:
  assumes "snappedMesh m" "ax \<in> {''x'', ''y'', ''z''}" "d \<in> {1, - 1}"
  shows "snappedMesh (turnIf ax idx d m)"
    and "inLayer ax idx (position (turnIf ax idx d m)) = inLayer ax idx (position m)"
    and "matrix (turnIf ax idx d m) =
         (if inLayer ax idx (position m) then carry (quarterTurn ax d) (matrix m) else matrix m)"
proof -
  show "snappedMesh (turnIf ax idx d m)"
    using assms by (simp add: turnIf_def turnMesh_keeps_snapped)
  show "inLayer ax idx (position (turnIf ax idx d m)) = inLayer ax idx (position m)"
    by (simp add: turnIf_def turnMesh_snappedMesh [OF assms] inLayer_quarterTurn [OF assms(2,3)])
  show "matrix (turnIf ax idx d m) =
         (if inLayer ax idx (position m) then carry (quarterTurn ax d) (matrix m) else matrix m)"
    using turnMesh_orientation [OF assms]
    by (simp add: turnIf_def matrix_def) (simp add: turnMesh_snappedMesh [OF assms])
qed

lemma turnLayer_turnIf: "turnLayer ax idx d cs = map (turnIf ax idx d) cs"
  by (simp add: turnLayer_def)

lemma matrixWorld_Scene: "parent m = Scene \<Longrightarrow> matrixWorld pv m = matrix m"
  by (simp add: matrixWorld_def)

lemma sameTransforms_snapped:
  assumes "snapped s" "snapped s'" "map matrix (cubies s') = map matrix (cubies s)"
  shows "sameTransforms s s'"
proof -
  have "map (matrixWorld (pivot s')) (cubies s') = map matrix (cubies s')"
    using assms(2) by (intro map_cong refl)
      (simp add: snapped_def list_all_iff snappedMesh_def matrixWorld_Scene)
  moreover have "map (matrixWorld (pivot s)) (cubies s) = map matrix (cubies s)"
    using assms(1) by (intro map_cong refl)
      (simp add: snapped_def list_all_iff snappedMesh_def matrixWorld_Scene)
  ultimately show ?thesis by (simp add: sameTransforms_def assms(3))
qed

lemma completed_Cons:
  assumes "completed ((face, inverted, dur, e, es) # ms) s = Some s'"
  obtains s1 where "move face inverted dur e es s = (Some (JSBool True), s1)"
    and "completed ms s1 = Some s'"
  using assms by (auto split: prod.splits option.splits jsval.splits bool.splits)

lemma turned_cubies: "cubies (turned ax idx d s) = map (turnIf ax idx d) (cubies s)"
  by (simp add: turned_def turnLayer_turnIf)

lemma apply_back:
  assumes "ax \<in> {''x'', ''y'', ''z''}" "d \<in> {1, - 1}"
  shows "applyMatrix (quarterTurn ax (- d)) (applyMatrix (quarterTurn ax d) p) = p"
    and "multiply (quarterTurn ax (- d)) (multiply (quarterTurn ax d) r) = r"
  using carry_back [OF assms, of "(r, p)"] by simp_all

lemma setFromRotationMatrix_identity:
  "snapRotation (setFromRotationMatrix ((1, 0, 0), (0, 1, 0), (0, 0, 1))) = (0, 0, 0)"
  by (simp add: Math_atan2_def clamp_def snapTo_def Math_round_numerals Let_def)

lemma multiply_identity_right: "multiply m ((1, 0, 0), (0, 1, 0), (0, 0, 1)) = m"
  by (cases m rule: prod_cases3; cases "fst m"; cases "fst (snd m)"; cases "snd (snd m)") auto

lemma turnIf_back:
  assumes "snappedMesh m" "rotation m = (0, 0, 0)" "ax \<in> {''x'', ''y'', ''z''}" "d \<in> {1, - 1}"
  shows "turnIf ax idx (- d) (turnIf ax idx d m) = m"
proof (cases "inLayer ax idx (position m)")
  case False
  then show ?thesis by (simp add: turnIf_def)
next
  case True
  from assms(4) have d': "- d \<in> {1, - 1}" by auto
  note t1 = turnIf_snapped [OF assms(1,3,4), of idx]
  have m1: "turnIf ax idx d m = turnMesh ax d m" using True by (simp add: turnIf_def)
  have "turnIf ax idx (- d) (turnMesh ax d m) = turnMesh ax (- d) (turnMesh ax d m)"
    using t1(2) True by (simp add: turnIf_def m1)
  also have "\<dots> = \<lparr>position = position m, rotation = (0, 0, 0), parent = Scene\<rparr>"
  proof -
    have sn1: "snappedMesh (turnMesh ax d m)" using t1(1) by (simp only: m1)
    have r1: "makeRotationFromEuler (rotation (turnMesh ax d m))
              = multiply (quarterTurn ax d) ((1, 0, 0), (0, 1, 0), (0, 0, 1))"
      by (simp only: turnMesh_orientation [OF assms(1,3,4)] assms(2) makeRotationFromEuler_zero)
    have p1: "position (turnMesh ax d m) = applyMatrix (quarterTurn ax d) (position m)"
      by (simp add: turnMesh_snappedMesh [OF assms(1,3,4)])
    show ?thesis
      by (simp only: turnMesh_snappedMesh [OF sn1 assms(3) d'] r1 p1 apply_back [OF assms(3,4)]
          setFromRotationMatrix_identity)
  qed
  also have "\<dots> = m" using assms(1,2) by (simp add: snappedMesh_def)
  finally show ?thesis by (simp add: m1)
qed

lemma turned_fields:
  "isAnimating (turned ax idx d s) = False"
  "scheduled (turned ax idx d s) = None"
  "pivot (turned ax idx d s) = (pivot s)\<lparr>rotation := (0, 0, 0), position := (0, 0, 0)\<rparr>"
  "onMoveComplete (turned ax idx d s) = onMoveComplete s"
  by (simp_all add: turned_def)

lemma completed_turned:
  assumes "faceMove face = Some (ax, idx, d)" "snapped s" "\<not> isAnimating s" "0 < dur" "dur \<le> of_int e"
  shows "completed ((face, inverted, dur, 0, [e]) # ms) s
         = completed ms (turned ax idx (if inverted then - d else d) s)"
  by (simp add: move_completes [OF assms(1,3) snapped_Scene [OF assms(2)] assms(4,5)])

section \<open>The cubies stay one to a grid point\<close>

lemma onGrid_cases:
  "onGrid c \<Longrightarrow> (c = - 1.02 \<Longrightarrow> P) \<Longrightarrow> (c = 0 \<Longrightarrow> P) \<Longrightarrow> (c = 1.02 \<Longrightarrow> P) \<Longrightarrow> P"
  by (auto simp: onGrid_def)

lemma gridPoints_gridPoint: "p \<in> set gridPoints \<Longrightarrow> gridPoint p"
  unfolding gridPoints_eq by (simp add: onGrid_def) (elim disjE; simp add: onGrid_def)

lemma gridPoint_gridPoints: "gridPoint p \<Longrightarrow> p \<in> set gridPoints"
proof -
  assume g: "gridPoint p"
  obtain x y z where p: "p = (x, y, z)" by (cases p)
  from g show ?thesis unfolding p gridPoints_eq gridPoint.simps
    by (elim conjE onGrid_cases) simp_all
qed

lemma occupied_mounted: "occupied (mounted obs)"
  using distinct_gridPoints
  by (simp add: occupied_def gridPoints_def) (simp add: mounted_def buildCube_def mesh_def)

lemma snapped_distinct_occupied:
  assumes "snapped s" "distinct (map position (cubies s))" "length (cubies s) = 27"
  shows "occupied s"
proof -
  have sub: "set (map position (cubies s)) \<subseteq> set gridPoints"
    using assms(1)
    by (auto simp: snapped_def list_all_iff snappedMesh_def intro!: gridPoint_gridPoints)
  have "card (set (map position (cubies s))) = 27"
    using distinct_card [OF assms(2)] assms(3) by simp
  moreover have "card (set gridPoints) = 27"
    using distinct_card [OF distinct_gridPoints] by (simp add: gridPoints_eq)
  ultimately have "set (map position (cubies s)) = set gridPoints"
    using sub by (intro card_subset_eq) simp_all
  with assms(1,2) show ?thesis
    by (simp add: occupied_def snapped_def snappedMesh_def list_all_iff)
qed

lemma inj_turnPoint:
  assumes "ax \<in> {''x'', ''y'', ''z''}" "d \<in> {1, - 1}"
  shows "inj (turnPoint ax idx d)"
proof (rule injI)
  fix p q assume eq: "turnPoint ax idx d p = turnPoint ax idx d q"
  have l: "inLayer ax idx (turnPoint ax idx d r) = inLayer ax idx r" for r
    by (simp add: turnPoint_def inLayer_quarterTurn [OF assms])
  from eq l [of p] l [of q] have same: "inLayer ax idx p = inLayer ax idx q" by simp
  show "p = q"
  proof (cases "inLayer ax idx p")
    case True
    with same eq have "applyMatrix (quarterTurn ax d) p = applyMatrix (quarterTurn ax d) q"
      by (simp add: turnPoint_def)
    then have "applyMatrix (quarterTurn ax (- d)) (applyMatrix (quarterTurn ax d) p)
             = applyMatrix (quarterTurn ax (- d)) (applyMatrix (quarterTurn ax d) q)" by simp
    then show ?thesis by (simp only: apply_back(1) [OF assms])
  next
    case False
    with same eq show ?thesis by (simp add: turnPoint_def)
  qed
qed

lemma turnPoint_gridPoints:
  assumes "ax \<in> {''x'', ''y'', ''z''}" "d \<in> {1, - 1}"
  shows "turnPoint ax idx d ` set gridPoints = set gridPoints"
proof (rule endo_inj_surj)
  show "finite (set gridPoints)" by simp
  show "turnPoint ax idx d ` set gridPoints \<subseteq> set gridPoints"
    using turn_gridPoint [OF quarterTurn_turns [OF assms]]
    by (auto simp: turnPoint_def intro!: gridPoint_gridPoints dest!: gridPoints_gridPoint)
  show "inj_on (turnPoint ax idx d) (set gridPoints)"
    using inj_turnPoint [OF assms] by (rule inj_on_subset) simp
qed

lemma position_turnIf:
  assumes "parent m = Scene" "gridPoint (position m)" "ax \<in> {''x'', ''y'', ''z''}" "d \<in> {1, - 1}"
  shows "position (turnIf ax idx d m) = turnPoint ax idx d (position m)"
    and "parent (turnIf ax idx d m) = Scene"
  using assms
  by (simp_all add: turnIf_def turnPoint_def turnMesh_Scene
      snapPosition_gridPoint [OF turn_gridPoint [OF quarterTurn_turns]])

lemma occupied_turned:
  assumes "occupied s" "ax \<in> {''x'', ''y'', ''z''}" "d \<in> {1, - 1}"
  shows "occupied (turned ax idx d s)"
proof -
  from assms(1) have sc: "list_all (\<lambda>m. parent m = Scene) (cubies s)"
    and di: "distinct (map position (cubies s))"
    and g: "set (map position (cubies s)) = set gridPoints"
    by (simp_all add: occupied_def)
  have each: "parent m = Scene \<and> gridPoint (position m)" if "m \<in> set (cubies s)" for m
    using that sc g by (auto simp: list_all_iff intro!: gridPoints_gridPoint)
  have pos: "map position (map (turnIf ax idx d) (cubies s))
             = map (turnPoint ax idx d) (map position (cubies s))"
    using each by (simp add: position_turnIf(1) [OF _ _ assms(2,3)])
  have "list_all (\<lambda>m. parent m = Scene) (map (turnIf ax idx d) (cubies s))"
    using each by (simp add: list_all_iff position_turnIf(2) [OF _ _ assms(2,3)])
  moreover have "inj_on (turnPoint ax idx d) (set (map position (cubies s)))"
    using inj_turnPoint [OF assms(2,3)] by (rule inj_on_subset) simp
  with di have "distinct (map (turnPoint ax idx d) (map position (cubies s)))"
    by (subst distinct_map) blast
  moreover have "set (map (turnPoint ax idx d) (map position (cubies s))) = set gridPoints"
    using turnPoint_gridPoints [OF assms(2,3)] g by (simp only: set_map)
  ultimately show ?thesis by (simp only: occupied_def turned_cubies pos)
qed

lemma move_turned_Scene:
  assumes "list_all (\<lambda>m. parent m = Scene) (cubies s)"
    "move face inverted dur e es s = (Some (JSBool True), s')"
  obtains ax idx d where "faceMove face = Some (ax, idx, d)" and "\<not> isAnimating s"
    and "s' = turned ax idx (if inverted then - d else d) s"
  using move_fulfilled [OF assms(2)] cleanup_beginRotation [OF assms(1)]
  by metis

lemma occupied_completed: "occupied s \<Longrightarrow> completed ms s = Some s' \<Longrightarrow> occupied s'"
proof (induction ms arbitrary: s)
  case Nil
  then show ?case by simp
next
  case (Cons m ms)
  obtain face inverted dur e es where m: "m = (face, inverted, dur, e, es)" by (cases m)
  from Cons.prems(2) obtain s1 where mv: "move face inverted dur e es s = (Some (JSBool True), s1)"
    and rest: "completed ms s1 = Some s'" unfolding m by (rule completed_Cons)
  from Cons.prems(1) have "list_all (\<lambda>m. parent m = Scene) (cubies s)" by (simp add: occupied_def)
  from this mv obtain ax idx d where f: "faceMove face = Some (ax, idx, d)"
    and s1: "s1 = turned ax idx (if inverted then - d else d) s" by (rule move_turned_Scene)
  from faceMove_cases [OF f] have "ax \<in> {''x'', ''y'', ''z''}" "(if inverted then - d else d) \<in> {1, - 1}"
    by auto
  with Cons.prems(1) have "occupied s1" unfolding s1 by (rule occupied_turned)
  then show ?case using rest by (rule Cons.IH)
qed

lemma snapped_completed:
  "snapped s \<Longrightarrow> completed ms s = Some s' \<Longrightarrow> snapped s' \<and> length (cubies s') = length (cubies s)"
proof (induction ms arbitrary: s)
  case Nil
  then show ?case by simp
next
  case (Cons m ms)
  obtain face inverted dur e es where m: "m = (face, inverted, dur, e, es)" by (cases m)
  from Cons.prems(2) obtain s1 where mv: "move face inverted dur e es s = (Some (JSBool True), s1)"
    and rest: "completed ms s1 = Some s'" unfolding m by (rule completed_Cons)
  from move_keeps_snapped [OF Cons.prems(1) mv] Cons.IH [OF _ rest]
  show ?case by simp
qed

section \<open>What the snap corrects\<close>

lemma snapTo_multiple: "\<exists>k::int. snapTo u v = of_int k * u"
  by (simp add: snapTo_def Math_round_def)

lemma snapPosition_multiples:
  "\<exists>i j k :: int. snapPosition p = (of_int i * 1.02, of_int j * 1.02, of_int k * 1.02)"
proof -
  obtain x y z where p: "p = (x, y, z)" by (cases p)
  obtain i j k :: int where "snapTo 1.02 x = of_int i * 1.02" "snapTo 1.02 y = of_int j * 1.02"
    "snapTo 1.02 z = of_int k * 1.02" using snapTo_multiple [of "1.02"] by metis
  then have "snapPosition p = (of_int i * 1.02, of_int j * 1.02, of_int k * 1.02)"
    unfolding p snapPosition.simps by (simp only:)
  then show ?thesis by blast
qed

lemma snapRotation_multiples:
  "\<exists>i j k :: int. snapRotation r = (of_int i * (pi / 2), of_int j * (pi / 2), of_int k * (pi / 2))"
proof -
  obtain x y z where r: "r = (x, y, z)" by (cases r)
  obtain i j k :: int where "snapTo (pi / 2) x = of_int i * (pi / 2)"
    "snapTo (pi / 2) y = of_int j * (pi / 2)" "snapTo (pi / 2) z = of_int k * (pi / 2)"
    using snapTo_multiple [of "pi / 2"] by metis
  then have "snapRotation r = (of_int i * (pi / 2), of_int j * (pi / 2), of_int k * (pi / 2))"
    unfolding r snapRotation.simps by (simp only:)
  then show ?thesis by blast
qed

lemma snapTo_near:
  assumes "onGrid g" "\<bar>c - g\<bar> < 0.51"
  shows "snapTo 1.02 c = g"
proof -
  from assms(1) obtain i :: int where g: "g = of_int i * 1.02" unfolding onGrid_iff by blast
  have "\<bar>c - of_int i * 1.02\<bar> < 1.02 / 2" using assms(2) unfolding g by simp
  then have "snapTo 1.02 c = of_int i * 1.02" by (intro snapTo_nearest) simp_all
  then show ?thesis by (simp only: g)
qed

lemma snapPosition_near:
  assumes "gridPoint g" "nearPoint p g"
  shows "snapPosition p = g"
proof -
  obtain x y z where p: "p = (x, y, z)" by (cases p)
  obtain gx gy gz where g: "g = (gx, gy, gz)" by (cases g)
  from assms have "snapTo 1.02 x = gx" "snapTo 1.02 y = gy" "snapTo 1.02 z = gz"
    unfolding p g by (simp_all only: gridPoint.simps nearPoint.simps snapTo_near)
  then show ?thesis unfolding p g snapPosition.simps by (simp only:)
qed

lemma nearPoint_turn:
  "r \<in> turns \<Longrightarrow> nearPoint p g \<Longrightarrow> nearPoint (applyMatrix r p) (applyMatrix r g)"
  by (cases p; cases g) (auto simp: turns_def abs_minus_commute)

lemma detach_fields:
  "parent (detach pv obj) = Scene"
  "position (detach pv obj) = snapPosition (getWorldPosition pv obj)"
  "rotation (detach pv obj) = snapRotation (setFromRotationMatrix (fst (matrixWorld pv obj)))"
  by (simp_all add: detach_def attach_def decompose_def getWorldPosition_def Let_def)

lemma detach_restores:
  assumes "gridPoint g" "nearPoint (getWorldPosition pv obj) g"
  shows "position (detach pv obj) = g" and "snappedMesh (detach pv obj)"
proof -
  show pos: "position (detach pv obj) = g"
    unfolding detach_fields using assms by (rule snapPosition_near)
  show "snappedMesh (detach pv obj)"
    unfolding snappedMesh_def pos
    using assms(1) by (simp add: detach_fields quarterTurns_snapRotation)
qed

lemma turnMesh_restores:
  assumes "parent m = Scene" "gridPoint g" "nearPoint (position m) g"
    "ax \<in> {''x'', ''y'', ''z''}" "d \<in> {1, - 1}"
  shows "position (turnMesh ax d m) = applyMatrix (quarterTurn ax d) g"
    and "snappedMesh (turnMesh ax d m)"
proof -
  have q: "quarterTurn ax d \<in> turns" using assms(4,5) by (rule quarterTurn_turns)
  note gp = turn_gridPoint [OF q assms(2)]
  note np = nearPoint_turn [OF q assms(3)]
  show pos: "position (turnMesh ax d m) = applyMatrix (quarterTurn ax d) g"
    by (simp add: turnMesh_Scene [OF assms(1)] snapPosition_near [OF gp np])
  show "snappedMesh (turnMesh ax d m)"
    unfolding snappedMesh_def pos using gp
    by (simp add: turnMesh_Scene [OF assms(1)] quarterTurns_snapRotation)
qed

lemma move_layer:
  assumes "list_all (\<lambda>m. parent m = Scene) (cubies s)" "faceMove face = Some (ax, idx, d)"
    "move face inverted dur e es s = (Some (JSBool True), s1)" "i < length (cubies s)"
  shows "length (cubies s1) = length (cubies s)"
    and "i \<notin> set (selectLayer ax idx s) \<Longrightarrow> cubies s1 ! i = cubies s ! i"
    and "i \<in> set (selectLayer ax idx s) \<Longrightarrow>
         cubies s1 ! i = turnMesh ax (if inverted then - d else d) (cubies s ! i)"
proof -
  from assms(1,3) obtain ax' idx' d' where "faceMove face = Some (ax', idx', d')"
    and "s1 = turned ax' idx' (if inverted then - d' else d') s" by (rule move_turned_Scene)
  with assms(2) have s1: "s1 = turned ax idx (if inverted then - d else d) s" by simp
  from assms(1,4) have sc: "parent (cubies s ! i) = Scene" by (simp add: list_all_length)
  have sel: "i \<in> set (selectLayer ax idx s) \<longleftrightarrow> inLayer ax idx (position (cubies s ! i))"
    using assms(4) by (simp add: set_selectLayer getWorldPosition_Scene [OF sc])
  show "length (cubies s1) = length (cubies s)" by (simp add: s1 turned_cubies)
  show "cubies s1 ! i = cubies s ! i" if "i \<notin> set (selectLayer ax idx s)"
    using that assms(4) sel by (simp add: s1 turned_cubies turnIf_def)
  show "cubies s1 ! i = turnMesh ax (if inverted then - d else d) (cubies s ! i)"
    if "i \<in> set (selectLayer ax idx s)"
    using that assms(4) sel by (simp add: s1 turned_cubies turnIf_def)
qed

section \<open>The claims\<close>

text \<open>
  C1. A cubie is snapped when it is a child of the scene whose world position is
  exactly a canonical grid point, each coordinate \<open>-1\<close>, \<open>0\<close> or \<open>1\<close> times 1.02 (and so
  within every tolerance of it), and whose three Euler angles are whole multiples of
  \<open>pi / 2\<close>.

  Preserved: from any snapped cube every sequence of completed moves, whatever their
  faces, durations and frame times, ends with every cubie snapped and as many cubies
  as before; from the mounted cube, with 27 snapped cubies.

  Restored by the snap: whatever the pivot and the mesh, the step that brings a mesh
  back to the scene (\<open>detach\<close>: \<open>scene.attach\<close>, then the two roundings) leaves its
  position coordinates whole multiples of 1.02 and its Euler angles whole multiples of
  \<open>pi / 2\<close>; and when the world position it had before the step is less than half a
  grid unit from a canonical grid point \<open>g\<close> in each coordinate, the step puts it on
  \<open>g\<close> and leaves it snapped. So a completed move on a cube whose cubies are children
  of the scene leaves each cubie outside the selected layer as it was, and puts each
  cubie of the layer that was less than half a unit from a grid point \<open>g\<close>, whatever
  its Euler angles, snapped on the grid point to which the quarter turn carries \<open>g\<close>.
\<close>

theorem drift_correction:
  "(snapped s \<and> completed ms s = Some s' \<longrightarrow>
      length (cubies s') = length (cubies s) \<and> snapped s' \<and>
      (\<forall>m \<in> set (cubies s').
         (\<exists>i \<in> {- 1, 0, 1 :: int}. \<exists>j \<in> {- 1, 0, 1 :: int}. \<exists>k \<in> {- 1, 0, 1 :: int}.
            getWorldPosition (pivot s') m = (of_int i * 1.02, of_int j * 1.02, of_int k * 1.02)) \<and>
         (\<exists>i j k :: int.
            rotation m = (of_int i * (pi / 2), of_int j * (pi / 2), of_int k * (pi / 2))))) \<and>
   (completed ns (mounted obs) = Some t \<longrightarrow> length (cubies t) = 27 \<and> snapped t) \<and>
   (parent (detach pv obj) = Scene \<and>
    (\<exists>i j k :: int.
       position (detach pv obj) = (of_int i * 1.02, of_int j * 1.02, of_int k * 1.02)) \<and>
    (\<exists>i j k :: int.
       rotation (detach pv obj) = (of_int i * (pi / 2), of_int j * (pi / 2), of_int k * (pi / 2)))) \<and>
   (gridPoint g \<and> nearPoint (getWorldPosition pv obj) g \<longrightarrow>
      position (detach pv obj) = g \<and> snappedMesh (detach pv obj)) \<and>
   (list_all (\<lambda>m. parent m = Scene) (cubies u) \<and> faceMove face = Some (ax, idx, d) \<and>
    move face inverted dur e es u = (Some (JSBool True), u1) \<and> n < length (cubies u) \<longrightarrow>
      length (cubies u1) = length (cubies u) \<and>
      (n \<notin> set (selectLayer ax idx u) \<longrightarrow> cubies u1 ! n = cubies u ! n) \<and>
      (n \<in> set (selectLayer ax idx u) \<and> gridPoint h \<and> nearPoint (position (cubies u ! n)) h \<longrightarrow>
         snappedMesh (cubies u1 ! n) \<and>
         position (cubies u1 ! n) = applyMatrix (quarterTurn ax (if inverted then - d else d)) h))"
proof -
  have kept: "length (cubies s') = length (cubies s) \<and> snapped s' \<and>
      (\<forall>m \<in> set (cubies s').
         (\<exists>i \<in> {- 1, 0, 1 :: int}. \<exists>j \<in> {- 1, 0, 1 :: int}. \<exists>k \<in> {- 1, 0, 1 :: int}.
            getWorldPosition (pivot s') m = (of_int i * 1.02, of_int j * 1.02, of_int k * 1.02)) \<and>
         (\<exists>i j k :: int.
            rotation m = (of_int i * (pi / 2), of_int j * (pi / 2), of_int k * (pi / 2))))"
    if pre: "snapped s \<and> completed ms s = Some s'"
  proof -
    from pre have step: "snapped s' \<and> length (cubies s') = length (cubies s)"
      using snapped_completed [of s ms s'] by blast
    have "(\<exists>i \<in> {- 1, 0, 1 :: int}. \<exists>j \<in> {- 1, 0, 1 :: int}. \<exists>k \<in> {- 1, 0, 1 :: int}.
            getWorldPosition (pivot s') m = (of_int i * 1.02, of_int j * 1.02, of_int k * 1.02)) \<and>
         (\<exists>i j k :: int.
            rotation m = (of_int i * (pi / 2), of_int j * (pi / 2), of_int k * (pi / 2)))"
      if "m \<in> set (cubies s')" for m
    proof -
      from step that have sm: "snappedMesh m" by (simp add: snapped_def list_all_iff)
      obtain x y z where p: "position m = (x, y, z)" by (cases "position m")
      obtain a b c where r: "rotation m = (a, b, c)" by (cases "rotation m")
      from sm p have "onGrid x" "onGrid y" "onGrid z" by (simp_all add: snappedMesh_def)
      then obtain i j k where "i \<in> {- 1, 0, 1 :: int}" "j \<in> {- 1, 0, 1 :: int}" "k \<in> {- 1, 0, 1 :: int}"
        "x = of_int i * 1.02" "y = of_int j * 1.02" "z = of_int k * 1.02"
        unfolding onGrid_iff by blast
      moreover from sm r have "quarter a" "quarter b" "quarter c" by (simp_all add: snappedMesh_def)
      then obtain i' j' k' :: int where "a = of_int i' * (pi / 2)" "b = of_int j' * (pi / 2)"
        "c = of_int k' * (pi / 2)" unfolding quarter_iff by blast
      moreover from sm have "getWorldPosition (pivot s') m = position m"
        by (simp add: snappedMesh_def getWorldPosition_Scene)
      ultimately show ?thesis unfolding p r by blast
    qed
    with step show ?thesis by blast
  qed
  have reached: "length (cubies t) = 27 \<and> snapped t" if "completed ns (mounted obs) = Some t"
    using snapped_completed [OF snapped_mounted that] by (simp add: length_mounted)
  have always: "parent (detach pv obj) = Scene \<and>
    (\<exists>i j k :: int.
       position (detach pv obj) = (of_int i * 1.02, of_int j * 1.02, of_int k * 1.02)) \<and>
    (\<exists>i j k :: int.
       rotation (detach pv obj) = (of_int i * (pi / 2), of_int j * (pi / 2), of_int k * (pi / 2)))"
    unfolding detach_fields using snapPosition_multiples snapRotation_multiples by blast
  have one: "position (detach pv obj) = g \<and> snappedMesh (detach pv obj)"
    if "gridPoint g \<and> nearPoint (getWorldPosition pv obj) g"
    using detach_restores [of g pv obj] that by blast
  have layer: "length (cubies u1) = length (cubies u) \<and>
      (n \<notin> set (selectLayer ax idx u) \<longrightarrow> cubies u1 ! n = cubies u ! n) \<and>
      (n \<in> set (selectLayer ax idx u) \<and> gridPoint h \<and> nearPoint (position (cubies u ! n)) h \<longrightarrow>
         snappedMesh (cubies u1 ! n) \<and>
         position (cubies u1 ! n) = applyMatrix (quarterTurn ax (if inverted then - d else d)) h)"
    if pre: "list_all (\<lambda>m. parent m = Scene) (cubies u) \<and> faceMove face = Some (ax, idx, d) \<and>
      move face inverted dur e es u = (Some (JSBool True), u1) \<and> n < length (cubies u)"
  proof -
    from pre have sc: "list_all (\<lambda>m. parent m = Scene) (cubies u)"
      and f: "faceMove face = Some (ax, idx, d)"
      and mv: "move face inverted dur e es u = (Some (JSBool True), u1)"
      and n: "n < length (cubies u)" by simp_all
    note ml = move_layer [OF sc f mv n]
    from sc n have pn: "parent (cubies u ! n) = Scene" by (simp add: list_all_length)
    from faceMove_cases [OF f] have v: "ax \<in> {''x'', ''y'', ''z''}"
      "(if inverted then - d else d) \<in> {1, - 1}" by auto
    have "snappedMesh (cubies u1 ! n) \<and>
         position (cubies u1 ! n) = applyMatrix (quarterTurn ax (if inverted then - d else d)) h"
      if "n \<in> set (selectLayer ax idx u) \<and> gridPoint h \<and> nearPoint (position (cubies u ! n)) h"
      using that turnMesh_restores [OF pn _ _ v, of h] by (simp add: ml(3))
    with ml(1,2) show ?thesis by blast
  qed
  from kept reached always one layer show ?thesis by blast
qed

theorem drift_correction_witness:
  "snapped (mounted True) \<and>
   completed [(''R'', False, 300, 0, [300])] (mounted True)
     = Some (turned ''x'' 1 (- 1) (mounted True)) \<and>
   snapped (turned ''x'' 1 (- 1) (mounted True)) \<and>
   length (cubies (turned ''x'' 1 (- 1) (mounted True))) = 27 \<and>
   gridPoint (- 1.02, - 1.02, - 1.02) \<and>
   nearPoint (getWorldPosition origin (cubies drifted ! 0)) (- 1.02, - 1.02, - 1.02) \<and>
   position (cubies drifted ! 0) = (- 0.72, - 1.02, - 1.02) \<and>
   position (detach origin (cubies drifted ! 0)) = (- 1.02, - 1.02, - 1.02) \<and>
   list_all (\<lambda>m. parent m = Scene) (cubies drifted) \<and>
   faceMove ''L'' = Some (''x'', - 1, 1) \<and>
   move ''L'' False 300 0 [300] drifted = (Some (JSBool True), turned ''x'' (- 1) 1 drifted) \<and>
   0 < length (cubies drifted) \<and> 0 \<in> set (selectLayer ''x'' (- 1) drifted) \<and>
   nearPoint (position (cubies drifted ! 0)) (- 1.02, - 1.02, - 1.02) \<and>
   snappedMesh (cubies (turned ''x'' (- 1) 1 drifted) ! 0) \<and>
   position (cubies (turned ''x'' (- 1) 1 drifted) ! 0) = (- 1.02, 1.02, - 1.02)"
proof -
  have run: "completed [(''R'', False, 300, 0, [300])] (mounted True)
             = Some (turned ''x'' 1 (- 1) (mounted True))"
    using move_completes [of "''R''" "''x''" 1 "- 1" "mounted True" 300 300 False]
      snapped_Scene [OF snapped_mounted [of True]]
    by (simp add: faceMove_def) (simp add: mounted_def)
  have c: "cubies drifted ! 0 =
           \<lparr>position = (- 0.72, - 1.02, - 1.02), rotation = (0, 0, 0), parent = Scene\<rparr>"
    and l: "0 < length (cubies drifted)"
    by (simp_all add: drifted_def mounted_def buildCube_def)
  have g: "gridPoint (- 1.02, - 1.02, - 1.02)" by (simp add: onGrid_def)
  have w: "getWorldPosition origin (cubies drifted ! 0) = (- 0.72, - 1.02, - 1.02)"
    by (simp add: c getWorldPosition_Scene)
  have near: "nearPoint (position (cubies drifted ! 0)) (- 1.02, - 1.02, - 1.02)"
    by (simp add: c)
  have nearw: "nearPoint (getWorldPosition origin (cubies drifted ! 0)) (- 1.02, - 1.02, - 1.02)"
    by (simp add: w)
  have sc: "list_all (\<lambda>m. parent m = Scene) (cubies drifted)"
    by (simp add: drifted_def mounted_def buildCube_def mesh_def)
  have f: "faceMove ''L'' = Some (''x'', - 1, 1)" by (simp add: faceMove_def)
  have idle: "\<not> isAnimating drifted" by (simp add: drifted_def mounted_def)
  have mv: "move ''L'' False 300 0 [300] drifted = (Some (JSBool True), turned ''x'' (- 1) 1 drifted)"
    using move_completes [OF f idle sc, of 300 300 False] by simp
  have sel: "0 \<in> set (selectLayer ''x'' (- 1) drifted)"
    using l by (simp add: set_selectLayer w [unfolded origin_def] getWorldPosition_Scene c)
  have q: "applyMatrix (quarterTurn ''x'' (if False then - 1 else 1)) (- 1.02, - 1.02, - 1.02)
           = (- 1.02, 1.02, - 1.02)"
    by (simp add: quarterTurn_def)
  note kept = drift_correction [THEN conjunct1, THEN mp, OF conjI [OF snapped_mounted run]]
  note one = drift_correction [THEN conjunct2, THEN conjunct2, THEN conjunct2, THEN conjunct1,
      THEN mp, OF conjI [OF g nearw]]
  note layer = drift_correction [THEN conjunct2, THEN conjunct2, THEN conjunct2, THEN conjunct2,
      THEN mp, OF conjI [OF sc conjI [OF f conjI [OF mv l]]], THEN conjunct2, THEN conjunct2,
      THEN mp, OF conjI [OF sel conjI [OF g near]]]
  from kept one layer [unfolded q] snapped_mounted [of True] run length_mounted [of True]
    g nearw near sc f mv l sel c
  show ?thesis by (simp del: completed.simps)
qed

text \<open>
  C2. For the axes \<open>x\<close>, \<open>y\<close> and \<open>z\<close> the cubie of index \<open>i\<close> is selected exactly when
  the distance of its world coordinate along the axis from \<open>index * TOTAL_SIZE\<close> is
  below 0.5. A call finds the cube as it was mounted or as a sequence of completed
  moves has left it: there the 27 cubies are snapped and stand one to a grid point, and
  each index \<open>-1\<close>, \<open>0\<close> and \<open>1\<close> selects nine different cubies. On every snapped cube an
  index below \<open>-1\<close> or above \<open>1\<close> selects none.
\<close>

theorem layer_selection:
  assumes "ax \<in> {''x'', ''y'', ''z''}"
  shows "(i \<in> set (selectLayer ax idx s) \<longleftrightarrow>
            i < length (cubies s) \<and>
            \<bar>coordinate ax (getWorldPosition (pivot s) (cubies s ! i)) - of_int idx * TOTAL_SIZE\<bar>
              < 0.5) \<and>
         (completed ms (mounted obs) = Some s \<longrightarrow>
            snapped s \<and> length (cubies s) = 27 \<and>
            (idx \<in> {- 1, 0, 1} \<longrightarrow>
               length (selectLayer ax idx s) = 9 \<and> distinct (selectLayer ax idx s))) \<and>
         (snapped s \<and> (idx < - 1 \<or> 1 < idx) \<longrightarrow> selectLayer ax idx s = [])"
proof -
  have "i \<in> set (selectLayer ax idx s) \<longleftrightarrow>
            i < length (cubies s) \<and>
            \<bar>coordinate ax (getWorldPosition (pivot s) (cubies s ! i)) - of_int idx * TOTAL_SIZE\<bar>
              < 0.5"
    using assms
    by (cases "getWorldPosition (pivot s) (cubies s ! i)")
       (auto simp: set_selectLayer Let_def TOTAL_SIZE_def CUBE_SIZE_def SPACING_def)
  moreover have "snapped s \<and> length (cubies s) = 27 \<and>
            (idx \<in> {- 1, 0, 1} \<longrightarrow>
               length (selectLayer ax idx s) = 9 \<and> distinct (selectLayer ax idx s))"
    if run: "completed ms (mounted obs) = Some s"
  proof -
    from snapped_completed [OF snapped_mounted run]
    have "snapped s" "length (cubies s) = 27" by (simp_all add: length_mounted)
    moreover from occupied_mounted run have "occupied s" by (rule occupied_completed)
    note occupied_layer [OF this assms]
    ultimately show ?thesis by (simp add: distinct_selectLayer)
  qed
  ultimately show ?thesis using snapped_out_of_range by blast
qed

theorem layer_selection_witness:
  "''y'' \<in> {''x'', ''y'', ''z''} \<and>
   completed [(''R'', False, 300, 0, [300])] (mounted True)
     = Some (turned ''x'' 1 (- 1) (mounted True)) \<and>
   (1::int) \<in> {- 1, 0, 1} \<and>
   length (selectLayer ''y'' 1 (turned ''x'' 1 (- 1) (mounted True))) = 9 \<and>
   snapped (turned ''x'' 1 (- 1) (mounted True)) \<and> ((2::int) < - 1 \<or> 1 < (2::int)) \<and>
   selectLayer ''y'' 2 (turned ''x'' 1 (- 1) (mounted True)) = []"
proof -
  have ax: "''y'' \<in> {''x'', ''y'', ''z''}" and i1: "(1::int) \<in> {- 1, 0, 1}"
    and i2: "(2::int) < - 1 \<or> 1 < (2::int)" by simp_all
  have run: "completed [(''R'', False, 300, 0, [300])] (mounted True)
             = Some (turned ''x'' 1 (- 1) (mounted True))"
    using move_completes [of "''R''" "''x''" 1 "- 1" "mounted True" 300 300 False]
      snapped_Scene [OF snapped_mounted [of True]]
    by (simp add: faceMove_def) (simp add: mounted_def)
  note reached = layer_selection [OF ax, THEN conjunct2, THEN conjunct1, THEN mp, OF run]
  note sn = reached [THEN conjunct1]
  note nine = reached [THEN conjunct2, THEN conjunct2, THEN mp, OF i1, THEN conjunct1]
  note none = layer_selection [OF ax, THEN conjunct2, THEN conjunct2, THEN mp,
      OF conjI [OF sn i2]]
  from sn nine none ax i1 run show ?thesis by (simp del: completed.simps)
qed

text \<open>
  C3. The \<open>switch\<close> of \<open>rotateFace\<close> gives R, L, U, D, F and B the axis, layer index and
  direction \<open>(x, 1, -1)\<close>, \<open>(x, -1, 1)\<close>, \<open>(y, 1, -1)\<close>, \<open>(y, -1, 1)\<close>, \<open>(z, 1, -1)\<close> and
  \<open>(z, -1, 1)\<close>; for every duration, frame time and state the call is \<open>rotateLayer\<close> on
  that axis and index, with the direction of the table, or its negation when \<open>invert\<close>
  is set.
\<close>

theorem notation_table:
  "faceMove ''R'' = Some (''x'', 1, - 1) \<and> faceMove ''L'' = Some (''x'', - 1, 1) \<and>
   faceMove ''U'' = Some (''y'', 1, - 1) \<and> faceMove ''D'' = Some (''y'', - 1, 1) \<and>
   faceMove ''F'' = Some (''z'', 1, - 1) \<and> faceMove ''B'' = Some (''z'', - 1, 1) \<and>
   rotateFace ''R'' False dur e s = rotateLayer ''x'' 1 (- 1) dur e s \<and>
   rotateFace ''R'' True dur e s = rotateLayer ''x'' 1 1 dur e s \<and>
   rotateFace ''L'' False dur e s = rotateLayer ''x'' (- 1) 1 dur e s \<and>
   rotateFace ''L'' True dur e s = rotateLayer ''x'' (- 1) (- 1) dur e s \<and>
   rotateFace ''U'' False dur e s = rotateLayer ''y'' 1 (- 1) dur e s \<and>
   rotateFace ''U'' True dur e s = rotateLayer ''y'' 1 1 dur e s \<and>
   rotateFace ''D'' False dur e s = rotateLayer ''y'' (- 1) 1 dur e s \<and>
   rotateFace ''D'' True dur e s = rotateLayer ''y'' (- 1) (- 1) dur e s \<and>
   rotateFace ''F'' False dur e s = rotateLayer ''z'' 1 (- 1) dur e s \<and>
   rotateFace ''F'' True dur e s = rotateLayer ''z'' 1 1 dur e s \<and>
   rotateFace ''B'' False dur e s = rotateLayer ''z'' (- 1) 1 dur e s \<and>
   rotateFace ''B'' True dur e s = rotateLayer ''z'' (- 1) (- 1) dur e s"
  by (simp add: faceMove_def rotateFace_def)

text \<open>
  C4, at an input where the code departs from it. While the R move of \<open>inFlight\<close> is
  running, a call with a face letter outside the table changes nothing, but its promise
  is fulfilled with \<open>undefined\<close>, not with \<open>false\<close>. With one of the six letters the
  busy cube answers \<open>false\<close> (\<open>rotateFace_busy\<close>), and with any argument it is left
  as it was (\<open>rotateFace_busy_state\<close>).
\<close>

theorem busy_call_undefined:
  "isAnimating inFlight \<and> rotateFace ''X'' False 300 0 inFlight = (Fulfilled JSUndefined, inFlight)"
proof -
  have "isAnimating inFlight"
    unfolding inFlight_def
    by (rule rotateFace_pending(2) [of "''R''" "''x''" 1 "- 1"])
       (simp_all add: faceMove_def mounted_def)
  moreover have "faceMove ''X'' = None" by (simp add: faceMove_def)
  ultimately show ?thesis by (simp add: rotateFace_unknown)
qed

text \<open>
  C5, at an input where the code departs from it. A call with the empty string as face
  on the mounted cube changes nothing and does not set the busy flag, but its promise is
  fulfilled with \<open>undefined\<close>, not with \<open>false\<close>. So it is for every string outside
  the six letters and every state (\<open>rotateFace_unknown\<close>, \<open>faceMove_None\<close>).
\<close>

theorem empty_face_undefined:
  "rotateFace '''' False 300 0 (mounted True) = (Fulfilled JSUndefined, mounted True)"
  by (simp add: rotateFace_def faceMove_def)

text \<open>
  C6. From a snapped cube, four completed calls of \<open>rotateFace\<close> on one face without
  \<open>invert\<close>, whatever their durations and frame times, leave every cubie with the world
  position and the world orientation it had: the world transforms, rotation matrix and
  translation, are equal as they stand.
\<close>

theorem four_turns:
  assumes "snapped s"
    and "completed [(face, False, d1, e1, es1), (face, False, d2, e2, es2),
                    (face, False, d3, e3, es3), (face, False, d4, e4, es4)] s = Some s'"
  shows "sameTransforms s s'"
proof -
  from assms(2) obtain s1
    where m1: "move face False d1 e1 es1 s = (Some (JSBool True), s1)"
      and r1: "completed [(face, False, d2, e2, es2), (face, False, d3, e3, es3),
                          (face, False, d4, e4, es4)] s1 = Some s'"
    by (rule completed_Cons)
  from r1 obtain s2
    where m2: "move face False d2 e2 es2 s1 = (Some (JSBool True), s2)"
      and r2: "completed [(face, False, d3, e3, es3), (face, False, d4, e4, es4)] s2 = Some s'"
    by (rule completed_Cons)
  from r2 obtain s3
    where m3: "move face False d3 e3 es3 s2 = (Some (JSBool True), s3)"
      and r3: "completed [(face, False, d4, e4, es4)] s3 = Some s'"
    by (rule completed_Cons)
  from r3 have m4: "move face False d4 e4 es4 s3 = (Some (JSBool True), s')"
    by (rule completed_Cons) simp
  note sn1 = move_keeps_snapped [OF assms(1) m1, THEN conjunct1]
  note sn2 = move_keeps_snapped [OF sn1 m2, THEN conjunct1]
  note sn3 = move_keeps_snapped [OF sn2 m3, THEN conjunct1]
  note sn4 = move_keeps_snapped [OF sn3 m4, THEN conjunct1]
  from assms(1) m1 obtain ax idx d where f: "faceMove face = Some (ax, idx, d)"
    and s1: "s1 = turned ax idx d s" by (rule move_turned) simp
  from sn1 m2 f have s2: "s2 = turned ax idx d s1" by (auto elim: move_turned)
  from sn2 m3 f have s3: "s3 = turned ax idx d s2" by (auto elim: move_turned)
  from sn3 m4 f have s4: "s' = turned ax idx d s3" by (auto elim: move_turned)
  note v = faceMove_cases(1,2) [OF f]
  have "matrix (turnIf ax idx d (turnIf ax idx d (turnIf ax idx d (turnIf ax idx d m)))) = matrix m"
    if "snappedMesh m" for m
  proof -
    note t1 = turnIf_snapped [OF that v]
    note t2 = turnIf_snapped [OF t1(1) v]
    note t3 = turnIf_snapped [OF t2(1) v]
    note t4 = turnIf_snapped [OF t3(1) v]
    show ?thesis
      by (simp add: t4(3) t3(2,3) t2(2,3) t1(2,3) carry_four [OF v])
  qed
  then have "map matrix (cubies s') = map matrix (cubies s)"
    using assms(1) by (simp add: s4 s3 s2 s1 turned_cubies snapped_def list_all_iff)
  with assms(1) sn4 show ?thesis by (rule sameTransforms_snapped)
qed

theorem four_turns_witness:
  "snapped (mounted True) \<and>
   completed [(''R'', False, 300, 0, [300]), (''R'', False, 300, 0, [300]),
              (''R'', False, 300, 0, [300]), (''R'', False, 300, 0, [300])] (mounted True)
     = Some (turned ''x'' 1 (- 1) (turned ''x'' 1 (- 1) (turned ''x'' 1 (- 1)
              (turned ''x'' 1 (- 1) (mounted True))))) \<and>
   sameTransforms (mounted True)
     (turned ''x'' 1 (- 1) (turned ''x'' 1 (- 1) (turned ''x'' 1 (- 1)
        (turned ''x'' 1 (- 1) (mounted True)))))"
proof -
  have step: "completed ((''R'', False, 300, 0, [300]) # ms) s = completed ms (turned ''x'' 1 (- 1) s)"
    if "snapped s" "\<not> isAnimating s" for s ms
    using completed_turned [of "''R''" "''x''" 1 "- 1" s 300 300 False ms] that
    by (simp add: faceMove_def)
  have keep: "snapped (turned ''x'' 1 (- 1) s)" if "snapped s" for s
    using that by (simp add: snapped_turned)
  have idle: "\<not> isAnimating (mounted True)" by (simp add: mounted_def)
  have run: "completed [(''R'', False, 300, 0, [300]), (''R'', False, 300, 0, [300]),
              (''R'', False, 300, 0, [300]), (''R'', False, 300, 0, [300])] (mounted True)
     = Some (turned ''x'' 1 (- 1) (turned ''x'' 1 (- 1) (turned ''x'' 1 (- 1)
              (turned ''x'' 1 (- 1) (mounted True)))))"
    by (simp add: step keep snapped_mounted idle turned_fields del: completed.simps(2))
  from four_turns [OF snapped_mounted run] snapped_mounted [of True] run show ?thesis by blast
qed

text \<open>
  C7. From a snapped cube, a completed call of \<open>rotateFace\<close> on a face followed by a
  completed call on the same face with \<open>invert\<close> leaves every cubie with the world
  transform it had. From the mounted cube the sequence U, U', U, U' ends with the list
  of cubies, positions and Euler angles, and the pivot as they were mounted, and the
  cube not busy.
\<close>

theorem round_trip:
  "(snapped s \<and>
    completed [(face, False, d1, e1, es1), (face, True, d2, e2, es2)] s = Some s'
      \<longrightarrow> sameTransforms s s') \<and>
   (completed [(''U'', False, d1, e1, es1), (''U'', True, d2, e2, es2),
               (''U'', False, d3, e3, es3), (''U'', True, d4, e4, es4)] (mounted obs) = Some s4
      \<longrightarrow> cubies s4 = cubies (mounted obs) \<and> pivot s4 = pivot (mounted obs) \<and>
          \<not> isAnimating s4)"
proof -
  have general: "sameTransforms s s'"
    if sn: "snapped s"
      and run: "completed [(face, False, d1, e1, es1), (face, True, d2, e2, es2)] s = Some s'"
  proof -
    from run obtain s1
      where m1: "move face False d1 e1 es1 s = (Some (JSBool True), s1)"
        and r1: "completed [(face, True, d2, e2, es2)] s1 = Some s'"
      by (rule completed_Cons)
    from r1 have m2: "move face True d2 e2 es2 s1 = (Some (JSBool True), s')"
      by (rule completed_Cons) simp
    note sn1 = move_keeps_snapped [OF sn m1, THEN conjunct1]
    note sn2 = move_keeps_snapped [OF sn1 m2, THEN conjunct1]
    from sn m1 obtain ax idx d where f: "faceMove face = Some (ax, idx, d)"
      and s1: "s1 = turned ax idx d s" by (rule move_turned) simp
    from sn1 m2 f have s2: "s' = turned ax idx (- d) s1" by (auto elim: move_turned)
    note v = faceMove_cases(1,2) [OF f]
    from v(2) have v': "- d \<in> {1, - 1}" by auto
    have "matrix (turnIf ax idx (- d) (turnIf ax idx d m)) = matrix m" if "snappedMesh m" for m
    proof -
      note t1 = turnIf_snapped [OF that v]
      note t2 = turnIf_snapped [OF t1(1) v(1) v']
      show ?thesis by (simp add: t2(3) t1(2,3) carry_back [OF v])
    qed
    then have "map matrix (cubies s') = map matrix (cubies s)"
      using sn by (simp add: s2 s1 turned_cubies snapped_def list_all_iff)
    with sn sn2 show ?thesis by (rule sameTransforms_snapped)
  qed
  have pair: "cubies s2 = cubies s0 \<and> pivot s2 = pivot s0 \<and> \<not> isAnimating s2 \<and> snapped s2"
    if sn: "snapped s0" and z: "list_all (\<lambda>m. rotation m = (0, 0, 0)) (cubies s0)"
      and pv: "pivot s0 = origin"
      and run: "completed [(''U'', False, d1, e1, es1), (''U'', True, d2, e2, es2)] s0 = Some s2"
    for s0 s2 d1 e1 es1 d2 e2 es2
  proof -
    from run obtain s1
      where m1: "move ''U'' False d1 e1 es1 s0 = (Some (JSBool True), s1)"
        and r1: "completed [(''U'', True, d2, e2, es2)] s1 = Some s2"
      by (rule completed_Cons)
    from r1 have m2: "move ''U'' True d2 e2 es2 s1 = (Some (JSBool True), s2)"
      by (rule completed_Cons) simp
    have f: "faceMove ''U'' = Some (''y'', 1, - 1)" by (simp add: faceMove_def)
    note sn1 = move_keeps_snapped [OF sn m1, THEN conjunct1]
    note sn2 = move_keeps_snapped [OF sn1 m2, THEN conjunct1]
    from sn m1 f have s1: "s1 = turned ''y'' 1 (- 1) s0" by (auto elim: move_turned)
    from sn1 m2 f have s2: "s2 = turned ''y'' 1 1 s1" by (auto elim: move_turned)
    have "turnIf ''y'' 1 1 (turnIf ''y'' 1 (- 1) m) = m"
      if "snappedMesh m" "rotation m = (0, 0, 0)" for m
      using turnIf_back [OF that, of "''y''" "- 1" 1] by simp
    then have "map (turnIf ''y'' 1 1) (map (turnIf ''y'' 1 (- 1)) (cubies s0)) = cubies s0"
      using sn z by (simp add: snapped_def list_all_iff map_idI)
    then have "cubies s2 = cubies s0" by (simp add: s2 s1 turned_cubies)
    moreover have "pivot s2 = pivot s0" by (simp add: s2 s1 turned_fields pv origin_def)
    ultimately show ?thesis using sn2 by (simp add: s2 turned_fields)
  qed
  have scenario: "cubies s4 = cubies (mounted obs) \<and> pivot s4 = pivot (mounted obs) \<and>
          \<not> isAnimating s4"
    if run: "completed [(''U'', False, d1, e1, es1), (''U'', True, d2, e2, es2),
               (''U'', False, d3, e3, es3), (''U'', True, d4, e4, es4)] (mounted obs) = Some s4"
  proof -
    from run obtain s1
      where m1: "move ''U'' False d1 e1 es1 (mounted obs) = (Some (JSBool True), s1)"
        and r1: "completed [(''U'', True, d2, e2, es2),
               (''U'', False, d3, e3, es3), (''U'', True, d4, e4, es4)] s1 = Some s4"
      by (rule completed_Cons)
    from r1 obtain s2
      where m2: "move ''U'' True d2 e2 es2 s1 = (Some (JSBool True), s2)"
        and r2: "completed [(''U'', False, d3, e3, es3), (''U'', True, d4, e4, es4)] s2 = Some s4"
      by (rule completed_Cons)
    from m1 m2 have first: "completed [(''U'', False, d1, e1, es1), (''U'', True, d2, e2, es2)]
                              (mounted obs) = Some s2" by simp
    have z: "list_all (\<lambda>m. rotation m = (0, 0, 0)) (cubies (mounted obs))"
      by (simp add: mounted_def buildCube_def mesh_def)
    have pv: "pivot (mounted obs) = origin" by (simp add: mounted_def origin_def)
    note b1 = pair [OF snapped_mounted z pv first]
    from b1 z pv have "list_all (\<lambda>m. rotation m = (0, 0, 0)) (cubies s2)" "pivot s2 = origin"
      by simp_all
    from pair [OF _ this r2] b1 show ?thesis by simp
  qed
  from general scenario show ?thesis by blast
qed

theorem round_trip_witness:
  "snapped (mounted True) \<and>
   completed [(''F'', False, 300, 0, [300]), (''F'', True, 300, 0, [300])] (mounted True)
     = Some (turned ''z'' 1 1 (turned ''z'' 1 (- 1) (mounted True))) \<and>
   sameTransforms (mounted True) (turned ''z'' 1 1 (turned ''z'' 1 (- 1) (mounted True))) \<and>
   completed [(''U'', False, 300, 0, [300]), (''U'', True, 300, 0, [300]),
              (''U'', False, 300, 0, [300]), (''U'', True, 300, 0, [300])] (mounted True)
     = Some (turned ''y'' 1 1 (turned ''y'' 1 (- 1) (turned ''y'' 1 1
              (turned ''y'' 1 (- 1) (mounted True))))) \<and>
   cubies (turned ''y'' 1 1 (turned ''y'' 1 (- 1) (turned ''y'' 1 1
              (turned ''y'' 1 (- 1) (mounted True))))) = cubies (mounted True)"
proof -
  have step: "completed ((face, inverted, 300, 0, [300]) # ms) s
              = completed ms (turned ax idx (if inverted then - d else d) s)"
    if "faceMove face = Some (ax, idx, d)" "snapped s" "\<not> isAnimating s"
    for s ms face inverted ax idx d
    using completed_turned [OF that, of 300 300 inverted ms] by simp
  have f: "faceMove ''F'' = Some (''z'', 1, - 1)" and u: "faceMove ''U'' = Some (''y'', 1, - 1)"
    by (simp_all add: faceMove_def)
  have keep: "snapped (turned ax idx d s)"
    if "snapped s" "ax \<in> {''x'', ''y'', ''z''}" "d \<in> {1, - 1}" for s ax idx d
    using that by (rule snapped_turned)
  have idle: "\<not> isAnimating (mounted True)" by (simp add: mounted_def)
  have run2: "completed [(''F'', False, 300, 0, [300]), (''F'', True, 300, 0, [300])] (mounted True)
     = Some (turned ''z'' 1 1 (turned ''z'' 1 (- 1) (mounted True)))"
    by (simp add: step [OF f] keep snapped_mounted idle turned_fields del: completed.simps(2))
  have run4: "completed [(''U'', False, 300, 0, [300]), (''U'', True, 300, 0, [300]),
              (''U'', False, 300, 0, [300]), (''U'', True, 300, 0, [300])] (mounted True)
     = Some (turned ''y'' 1 1 (turned ''y'' 1 (- 1) (turned ''y'' 1 1
              (turned ''y'' 1 (- 1) (mounted True)))))"
    by (simp add: step [OF u] keep snapped_mounted idle turned_fields del: completed.simps(2))
  note law = round_trip [THEN conjunct1, THEN mp, OF conjI [OF snapped_mounted run2]]
  note scenario = round_trip [THEN conjunct2, THEN mp, OF run4, THEN conjunct1]
  from law scenario snapped_mounted [of True] run2 run4 show ?thesis by blast
qed

text \<open>
  C8, as stated, at inputs where it fails. The source bounds the progress from above
  only. \<open>rotateFace('R', false, -300)\<close> is accepted and its promise pending; a frame
  150 ms later has progress \<open>-1/2\<close>, outside \<open>[0, 1]\<close>. So has a frame of
  \<open>rotateFace('R', false, 300)\<close> whose clock reading is 150 ms earlier than
  \<open>startTime\<close>, the clock having been set back in between.
\<close>

theorem progress_below_zero:
  "fst (rotateFace ''R'' False (- 300) 0 (mounted True)) = Pending \<and>
   progressAt 150 (- 300) = Progress (- 1 / 2) \<and>
   \<not> clamped (progressAt 150 (- 300)) \<and>
   fst (rotateFace ''R'' False 300 0 (mounted True)) = Pending \<and>
   progressAt (- 150) 300 = Progress (- 1 / 2) \<and>
   \<not> clamped (progressAt (- 150) 300)"
proof -
  have "fst (rotateFace ''R'' False (- 300) 0 (mounted True)) = Pending"
    by (rule rotateFace_pending(1) [of "''R''" "''x''" 1 "- 1"])
       (simp_all add: faceMove_def mounted_def)
  moreover have "fst (rotateFace ''R'' False 300 0 (mounted True)) = Pending"
    by (rule rotateFace_pending(1) [of "''R''" "''x''" 1 "- 1"])
       (simp_all add: faceMove_def mounted_def)
  ultimately show ?thesis by (simp add: progressAt_def)
qed

text \<open>
  C8, amended. Take an accepted call with a positive duration, and let \<open>s0\<close> be the
  state of its move after any frames \<open>ts\<close> that have left it in flight; with no frames
  this is the state on which the call itself runs the first frame. A frame whose clock
  reading is \<open>t\<close> ms after \<open>startTime\<close>, with \<open>t\<close> not negative, has progress
  \<open>p = min (t / duration) 1\<close> in \<open>[0, 1]\<close> and eased value \<open>1 - (1 - p) ^ 3\<close>; it writes
  \<open>(pi / 2) * direction * eased\<close> to the pivot's rotation about the axis of the move
  and leaves the other two components zero, as they are in \<open>s0\<close>; the move goes on if
  \<open>p < 1\<close> and is cleaned up otherwise.
\<close>

theorem animation_frame:
  assumes "faceMove face = Some (ax, idx, d)" and "\<not> isAnimating s" and "0 < dur"
    and "dir = (if inverted then - d else d)"
    and "a = \<lparr>axis = ax, targetRotation = (pi / 2) * of_int dir, duration = dur,
               activeCubies = selectLayer ax idx s\<rparr>"
    and "s0 = sampled ts (beginRotation ax idx dir dur s)" and "isAnimating s0"
    and "0 \<le> t" and "p = min (of_int t / dur) 1"
  shows "rotateFace face inverted dur e s =
           (case animateRotation e (beginRotation ax idx dir dur s) of
              (True, s') \<Rightarrow> (Fulfilled (JSBool True), s')
            | (False, s') \<Rightarrow> (Pending, s')) \<and>
         progressAt t dur = Progress p \<and> 0 \<le> p \<and> p \<le> 1 \<and>
         easeOut p = 1 - (1 - p) ^ 3 \<and>
         animateRotation t s0 =
           (if p < 1 then (False, drive a p s0) else (True, cleanup a (drive a p s0))) \<and>
         rotation (pivot (drive a p s0)) =
           setAxis ax ((pi / 2) * of_int dir * (1 - (1 - p) ^ 3)) (0, 0, 0) \<and>
         rotation (pivot s0) = setAxis ax (coordinate ax (rotation (pivot s0))) (0, 0, 0)"
proof -
  let ?b = "beginRotation ax idx dir dur s"
  have sch: "scheduled ?b = Some a" by (simp add: assms(5) scheduled_beginRotation)
  have rot: "rotation (pivot ?b) = setAxis (axis a) 0 (0, 0, 0)"
    by (simp add: beginRotation_fields)
  from sampled_inFlight [OF sch rot] assms(6,7)
  obtain ang where s0: "scheduled s0 = Some a"
    and r0: "rotation (pivot s0) = setAxis (axis a) ang (0, 0, 0)" by auto
  have pr: "progressAt t dur = Progress p" unfolding assms(9) using assms(3) by (rule progressAt_positive)
  have "rotateFace face inverted dur e s =
           (case animateRotation e ?b of
              (True, s') \<Rightarrow> (Fulfilled (JSBool True), s')
            | (False, s') \<Rightarrow> (Pending, s'))"
    using assms(2) by (simp add: rotateFace_rotateLayer [OF assms(1)] rotateLayer_def assms(4))
  moreover have "0 \<le> p \<and> p \<le> 1" using assms(3,8) by (simp add: assms(9))
  moreover have "animateRotation t s0 =
           (if p < 1 then (False, drive a p s0) else (True, cleanup a (drive a p s0)))"
    by (simp add: animateRotation_def s0 pr assms(5))
  moreover have "rotation (pivot (drive a p s0)) =
           setAxis ax ((pi / 2) * of_int dir * (1 - (1 - p) ^ 3)) (0, 0, 0)"
    using drive_rotation [OF r0, of p] by (simp add: assms(5) easeOut_def)
  moreover have "rotation (pivot s0) = setAxis ax (coordinate ax (rotation (pivot s0))) (0, 0, 0)"
    using r0 faceMove_cases(1) [OF assms(1)] by (auto simp: assms(5))
  ultimately show ?thesis using pr by (simp add: easeOut_def)
qed

theorem animation_frame_witness:
  "faceMove ''R'' = Some (''x'', 1, - 1) \<and> \<not> isAnimating (mounted True) \<and> (0::real) < 300 \<and>
   isAnimating (sampled [100] (beginRotation ''x'' 1 (- 1) 300 (mounted True))) \<and>
   (0::int) \<le> 200 \<and>
   progressAt 200 300 = Progress (2 / 3) \<and>
   rotation (pivot (drive \<lparr>axis = ''x'', targetRotation = (pi / 2) * of_int (- 1), duration = 300,
                            activeCubies = selectLayer ''x'' 1 (mounted True)\<rparr> (2 / 3)
                      (sampled [100] (beginRotation ''x'' 1 (- 1) 300 (mounted True)))))
     = ((pi / 2) * of_int (- 1) * (1 - (1 - 2 / 3) ^ 3), 0, 0)"
proof -
  have f: "faceMove ''R'' = Some (''x'', 1, - 1)" by (simp add: faceMove_def)
  have idle: "\<not> isAnimating (mounted True)" by (simp add: mounted_def)
  have fl: "isAnimating (sampled [100] (beginRotation ''x'' 1 (- 1) 300 (mounted True)))"
    by (simp add: animateRotation_def scheduled_beginRotation progressAt_def drive_fields
        beginRotation_fields)
  have t: "(0::int) \<le> 200" by simp
  have p: "(2 / 3 :: real) = min (of_int 200 / 300) 1" by simp
  from animation_frame [OF f idle _ _ refl refl fl t p, of False 0] f idle fl
  show ?thesis by simp
qed

text \<open>
  C9. \<open>move\<close> gives the value with which the promise of a call has been fulfilled once
  the frames \<open>es\<close> have run, if it has been. For an accepted call, one with a face of the
  table on a cube that is not busy: a fulfilled promise holds \<open>true\<close>, the busy flag is
  then clear, the pivot rotation is zero, \<open>onMoveComplete\<close> has been called once more
  than before the call if the observer is there, and whatever frames \<open>ts\<close> follow call it
  no further; while the promise is pending the cube is busy and the observer has not
  been called. For a call with an unknown face or on a busy cube the promise is
  fulfilled at once with a value other than \<open>true\<close> and the state, the count of
  observer calls with it, is unchanged.
\<close>

theorem move_completion:
  assumes "move face inverted dur e es s = (r, s')"
  shows "(faceMove face \<noteq> None \<and> \<not> isAnimating s \<longrightarrow>
            (case r of
               Some v \<Rightarrow> v = JSBool True \<and> \<not> isAnimating s' \<and> rotation (pivot s') = (0, 0, 0) \<and>
                  moveCompleteCalls s' = moveCompleteCalls s + (if onMoveComplete s then 1 else 0) \<and>
                  frames ts s' = (None, s')
             | None \<Rightarrow> isAnimating s' \<and> moveCompleteCalls s' = moveCompleteCalls s)) \<and>
         (faceMove face = None \<or> isAnimating s \<longrightarrow>
            r \<noteq> None \<and> r \<noteq> Some (JSBool True) \<and> s' = s)"
proof -
  have accepted: "case r of
          Some v \<Rightarrow> v = JSBool True \<and> \<not> isAnimating s' \<and> rotation (pivot s') = (0, 0, 0) \<and>
             moveCompleteCalls s' = moveCompleteCalls s + (if onMoveComplete s then 1 else 0) \<and>
             frames ts s' = (None, s')
        | None \<Rightarrow> isAnimating s' \<and> moveCompleteCalls s' = moveCompleteCalls s"
    if acc: "faceMove face \<noteq> None \<and> \<not> isAnimating s"
  proof -
    from acc obtain ax idx d where f: "faceMove face = Some (ax, idx, d)" by auto
    from move_accepted [OF f _ refl refl assms] acc show ?thesis
      by (auto simp: cleanup_fields beginRotation_fields frames_idle)
  qed
  have refused: "r \<noteq> None \<and> r \<noteq> Some (JSBool True) \<and> s' = s"
    if ref: "faceMove face = None \<or> isAnimating s"
  proof (cases "faceMove face")
    case None
    with assms show ?thesis by (auto simp: move_def rotateFace_unknown)
  next
    case (Some t)
    with ref have "isAnimating s" by simp
    with assms Some show ?thesis by (auto simp: move_def rotateFace_busy)
  qed
  from accepted refused show ?thesis by blast
qed

theorem move_completion_witness:
  "move ''R'' False 300 0 [300] (mounted True)
     = (Some (JSBool True), turned ''x'' 1 (- 1) (mounted True)) \<and>
   faceMove ''R'' \<noteq> None \<and> \<not> isAnimating (mounted True) \<and>
   \<not> isAnimating (turned ''x'' 1 (- 1) (mounted True)) \<and>
   rotation (pivot (turned ''x'' 1 (- 1) (mounted True))) = (0, 0, 0) \<and>
   moveCompleteCalls (turned ''x'' 1 (- 1) (mounted True)) = 1 \<and>
   move ''X'' False 300 0 [300] (mounted True) = (Some JSUndefined, mounted True)"
proof -
  have run: "move ''R'' False 300 0 [300] (mounted True)
             = (Some (JSBool True), turned ''x'' 1 (- 1) (mounted True))"
    using move_completes [of "''R''" "''x''" 1 "- 1" "mounted True" 300 300 False]
      snapped_Scene [OF snapped_mounted [of True]]
    by (simp add: faceMove_def) (simp add: mounted_def)
  have inv: "move ''X'' False 300 0 [300] (mounted True) = (Some JSUndefined, mounted True)"
    by (simp add: move_def rotateFace_def faceMove_def)
  from move_completion [OF run] move_completion [OF inv] run inv
  show ?thesis by (simp add: faceMove_def mounted_def)
qed

text \<open>
  C10. For the axes \<open>x\<close>, \<open>y\<close> and \<open>z\<close> the cubie of index \<open>i\<close> is selected exactly when the
  distance of its world coordinate along the axis from \<open>1.02 * index\<close> is below 0.5.
  The constant \<open>epsilon = 0.1\<close> has no part in it: a cubie whose distance is at least
  \<open>epsilon\<close> and below 0.5 is selected.
\<close>

theorem selection_tolerance:
  "ax \<in> {''x'', ''y'', ''z''} \<Longrightarrow>
   (i \<in> set (selectLayer ax idx s) \<longleftrightarrow>
      i < length (cubies s) \<and>
      \<bar>coordinate ax (getWorldPosition (pivot s) (cubies s ! i)) - 1.02 * of_int idx\<bar> < 0.5) \<and>
   (i < length (cubies s) \<and>
    epsilon \<le> \<bar>coordinate ax (getWorldPosition (pivot s) (cubies s ! i)) - 1.02 * of_int idx\<bar> \<and>
    \<bar>coordinate ax (getWorldPosition (pivot s) (cubies s ! i)) - 1.02 * of_int idx\<bar> < 0.5
    \<longrightarrow> i \<in> set (selectLayer ax idx s))"
  by (cases "getWorldPosition (pivot s) (cubies s ! i)")
     (auto simp: set_selectLayer Let_def algebra_simps)

theorem selection_tolerance_witness:
  "''x'' \<in> {''x'', ''y'', ''z''} \<and> (0::nat) < length (cubies drifted) \<and>
   epsilon \<le> \<bar>coordinate ''x'' (getWorldPosition (pivot drifted) (cubies drifted ! 0))
                - 1.02 * of_int (- 1)\<bar> \<and>
   \<bar>coordinate ''x'' (getWorldPosition (pivot drifted) (cubies drifted ! 0))
      - 1.02 * of_int (- 1)\<bar> < 0.5 \<and>
   0 \<in> set (selectLayer ''x'' (- 1) drifted)"
proof -
  have c: "cubies drifted ! 0 =
           \<lparr>position = (- 0.72, - 1.02, - 1.02), rotation = (0, 0, 0), parent = Scene\<rparr>"
    and l: "(0::nat) < length (cubies drifted)"
    by (simp_all add: drifted_def mounted_def buildCube_def)
  have w: "getWorldPosition (pivot drifted) (cubies drifted ! 0) = (- 0.72, - 1.02, - 1.02)"
    by (simp add: c getWorldPosition_Scene)
  from selection_tolerance [of "''x''" 0 "- 1" drifted] l
  show ?thesis by (simp add: w epsilon_def)
qed

end
